theory Spec2Isabelle
  imports Main "HOL-Library.AList"
begin

section \<open>Python values and string operations used by owl2json.py\<close>

text \<open>
  Strings are lists of characters. The only exception the modelled code can raise by
  itself is the IndexError of a list index (\<open>xs[0]\<close>, \<open>xs[-1]\<close>) on an empty list;
  every such index goes through \<open>py_first\<close> or \<open>py_last\<close>.
\<close>

datatype error = IndexError

definition py_first :: "'a list \<Rightarrow> error + 'a" where
  \<comment> \<open>\<open>xs[0]\<close>\<close>
  "py_first xs = (case xs of [] \<Rightarrow> Inl IndexError | x # _ \<Rightarrow> Inr x)"

definition py_last :: "'a list \<Rightarrow> error + 'a" where
  \<comment> \<open>\<open>xs[-1]\<close>\<close>
  "py_last xs = (if xs = [] then Inl IndexError else Inr (last xs))"

definition startswith :: "string \<Rightarrow> string \<Rightarrow> bool" where
  \<comment> \<open>\<open>s.startswith(p)\<close>\<close>
  "startswith s p = (take (length p) s = p)"

fun str_contains :: "string \<Rightarrow> string \<Rightarrow> bool" where
  \<comment> \<open>\<open>p in s\<close> for strings: \<open>p\<close> occurs in \<open>s\<close> as a contiguous substring\<close>
  "str_contains [] p = (p = [])"
| "str_contains (c # cs) p = (startswith (c # cs) p \<or> str_contains cs p)"

function str_split :: "string \<Rightarrow> string \<Rightarrow> string \<Rightarrow> string list" where
  \<comment> \<open>\<open>s.split(sep)\<close> is \<open>str_split sep [] s\<close>: the occurrences of \<open>sep\<close> are found from
      left to right without overlap; the second argument holds, reversed, the characters
      of the piece being read. The source only splits at the constant separators
      \<open>'#'\<close>, \<open>'/'\<close> and \<open>'_v'\<close> (Python rejects an empty separator).\<close>
  "str_split sep acc [] = [rev acc]"
| "str_split sep acc (c # cs) =
     (if sep \<noteq> [] \<and> startswith (c # cs) sep
      then rev acc # str_split sep [] (drop (length sep) (c # cs))
      else str_split sep (c # acc) cs)"
  by pat_completeness auto
termination
  by (relation "measure (\<lambda>(sep, acc, s). length s)") auto

definition is_space :: "char \<Rightarrow> bool" where
  \<comment> \<open>\<open>c.isspace()\<close> on the code points below 256: tab, line feed, vertical tab, form
      feed, carriage return, the separators 28 to 31, space, NEL and no-break space\<close>
  "is_space c = (of_char c \<in> {9, 10, 11, 12, 13, 28, 29, 30, 31, 32, 133, 160 :: nat})"

definition str_strip :: "string \<Rightarrow> string" where
  \<comment> \<open>\<open>s.strip()\<close>\<close>
  "str_strip s = rev (dropWhile is_space (rev (dropWhile is_space s)))"

fun split_ws :: "string \<Rightarrow> string \<Rightarrow> string list" where
  \<comment> \<open>\<open>s.split()\<close> is \<open>split_ws [] s\<close>: the maximal runs of non-whitespace characters;
      the first argument holds, reversed, the token being read\<close>
  "split_ws cur [] = (if cur = [] then [] else [rev cur])"
| "split_ws cur (c # cs) =
     (if is_space c then (if cur = [] then split_ws [] cs else rev cur # split_ws [] cs)
      else split_ws (c # cur) cs)"

section \<open>URI normalizer\<close>

definition BASE_IRI :: string where
  "BASE_IRI = ''http://myonto.com/PanResOntology.owl#''"

definition NAMESPACES :: "(string \<times> string) list" where
  \<comment> \<open>the dict literal, in insertion order (the order \<open>.items()\<close> iterates in)\<close>
  "NAMESPACES =
     [(BASE_IRI, ''''),
      (''http://www.w3.org/2001/XMLSchema#'', ''xsd:''),
      (''http://www.w3.org/1999/02/22-rdf-syntax-ns#'', ''rdf:''),
      (''http://www.w3.org/2000/01/rdf-schema#'', ''rdfs:''),
      (''http://www.w3.org/2002/07/owl#'', ''owl:'')]"

fun clean_uri_loop :: "(string \<times> string) list \<Rightarrow> string \<Rightarrow> error + string" where
  \<comment> \<open>the \<open>for namespace, prefix in NAMESPACES.items()\<close> loop over the remaining items\<close>
  "clean_uri_loop [] uri_str = Inr uri_str"
| "clean_uri_loop ((namespace, pfx) # rest) uri_str =
     (if startswith uri_str namespace then
        (case (if str_contains uri_str ''#'' then py_last (str_split ''#'' [] uri_str)
               else py_last (str_split ''/'' [] uri_str)) of
           Inl e \<Rightarrow> Inl e
         | Inr fragment \<Rightarrow> Inr (if pfx \<noteq> [] then pfx @ fragment else fragment))
      else clean_uri_loop rest uri_str)"

definition clean_uri :: "string \<Rightarrow> error + string" where
  "clean_uri uri_str = clean_uri_loop NAMESPACES uri_str"

section \<open>FASTA loader\<close>

text \<open>
  The file system is a partial map from a path to the lines of the file as the file
  iterator yields them (\<open>None\<close>: \<open>os.path.exists\<close> is false). A Python dict is an
  association list in insertion order: \<open>d[k] = v\<close> is \<open>AList.update k v d\<close>, which
  overwrites in place or appends, \<open>k in d\<close> and \<open>d[k]\<close> are \<open>map_of d k\<close>. The lines
  that \<open>parse_fasta\<close> prints are returned as a list of messages.
\<close>

type_synonym fs = "string \<rightharpoonup> string list"

datatype msg =
    FastaNotFound string  \<comment> \<open>\<open>Warning: FASTA file not found: ...\<close>\<close>
  | ParsingFasta string   \<comment> \<open>\<open>Parsing FASTA file: ...\<close>\<close>
  | ParsedCount nat       \<comment> \<open>\<open>Parsed n sequences\<close>\<close>

record fasta_state =
  sequences :: "(string \<times> string) list"
  current_id :: "string option"
  current_seq :: "string list"

definition save_sequence :: "fasta_state \<Rightarrow> (string \<times> string) list" where
  \<comment> \<open>\<open>if current_id: sequences[current_id] = ''.join(current_seq)\<close>; \<open>None\<close> and the
      empty string are both false\<close>
  "save_sequence st =
     (case current_id st of
        None \<Rightarrow> sequences st
      | Some cid \<Rightarrow>
          if cid \<noteq> [] then AList.update cid (concat (current_seq st)) (sequences st)
          else sequences st)"

definition header_id :: "string \<Rightarrow> error + string" where
  \<comment> \<open>lines 79 to 84: the new \<open>current_id\<close> for the stripped header line \<open>line\<close>\<close>
  "header_id line =
     (case py_first (split_ws [] (drop 1 line)) of
        Inl e \<Rightarrow> Inl e
      | Inr header \<Rightarrow>
          if str_contains header ''_v'' \<and> str_contains header ''_identical''
          then py_first (str_split ''_v'' [] header)
          else Inr header)"

definition fasta_line :: "fasta_state \<Rightarrow> string \<Rightarrow> error + fasta_state" where
  \<comment> \<open>the body of \<open>for line in f\<close>\<close>
  "fasta_line st raw =
     (let line = str_strip raw in
      if startswith line ''>'' then
        (let saved = save_sequence st in
         case header_id line of
           Inl e \<Rightarrow> Inl e
         | Inr cid \<Rightarrow> Inr \<lparr>sequences = saved, current_id = Some cid, current_seq = []\<rparr>)
      else Inr (st\<lparr>current_seq := current_seq st @ [line]\<rparr>))"

fun fasta_lines :: "fasta_state \<Rightarrow> string list \<Rightarrow> error + fasta_state" where
  "fasta_lines st [] = Inr st"
| "fasta_lines st (raw # rest) =
     (case fasta_line st raw of Inl e \<Rightarrow> Inl e | Inr st' \<Rightarrow> fasta_lines st' rest)"

definition parse_fasta :: "fs \<Rightarrow> string \<Rightarrow> msg list \<times> (error + (string \<times> string) list)" where
  "parse_fasta files fasta_file =
     (case files fasta_file of
        None \<Rightarrow> ([FastaNotFound fasta_file], Inr [])
      | Some lines \<Rightarrow>
          (case fasta_lines \<lparr>sequences = [], current_id = None, current_seq = []\<rparr> lines of
             Inl e \<Rightarrow> ([ParsingFasta fasta_file], Inl e)
           | Inr st \<Rightarrow>
               (let seqs = save_sequence st
                in ([ParsingFasta fasta_file, ParsedCount (length seqs)], Inr seqs))))"

section \<open>Triple collector, category classifier and document builder\<close>

text \<open>
  The parsed graph is the list of its triples in the order the iteration yields them.
  A subject or object is an IRI, a literal or a blank node; a predicate is an IRI, as
  in every RDF graph. The console output of \<open>convert_owl_to_json\<close> and the
  serialisation of the document are not modelled: the function returns the \<open>data\<close>
  dictionary that it hands to \<open>json.dump\<close>.
\<close>

datatype node = URIRef string | Literal string | BNode string

type_synonym triple = "node \<times> string \<times> node"

record obj_data =
  val :: string
  is_literal :: bool

record subj_props =
  types :: "string list"
  properties :: "(string \<times> obj_data list) list"

type_synonym subject_props = "(string \<times> subj_props) list"

fun dict_modify :: "'v \<Rightarrow> ('v \<Rightarrow> 'v) \<Rightarrow> string \<Rightarrow> (string \<times> 'v) list \<Rightarrow> (string \<times> 'v) list" where
  \<comment> \<open>an in-place change \<open>f\<close> of \<open>d[k]\<close> on a defaultdict whose default value is
      \<open>dflt\<close>: a missing key is first inserted, at the end, with the default\<close>
  "dict_modify dflt f k [] = [(k, f dflt)]"
| "dict_modify dflt f k ((k', v) # kvs) =
     (if k' = k then (k', f v) # kvs else (k', v) # dict_modify dflt f k kvs)"

definition store_property :: "subject_props \<Rightarrow> string \<Rightarrow> string \<Rightarrow> obj_data \<Rightarrow> subject_props" where
  \<comment> \<open>lines 155 to 159\<close>
  "store_property sp subj_id pred_id od =
     (let sp1 = dict_modify \<lparr>types = [], properties = []\<rparr>
                  (\<lambda>p. p\<lparr>properties :=
                          dict_modify [] (\<lambda>vs. vs @ [od]) pred_id (properties p)\<rparr>)
                  subj_id sp
      in if pred_id = ''rdf:type''
         then dict_modify \<lparr>types = [], properties = []\<rparr>
                (\<lambda>p. p\<lparr>types := types p @ [val od]\<rparr>) subj_id sp1
         else sp1)"

definition collect_triple :: "subject_props \<Rightarrow> triple \<Rightarrow> error + subject_props" where
  \<comment> \<open>the body of \<open>for subj, pred, obj in graph\<close>; \<open>continue\<close> leaves the state as it is\<close>
  "collect_triple sp t =
     (case t of (subj, pred, obj) \<Rightarrow>
        (case subj of
           URIRef s \<Rightarrow>
             (case clean_uri s of Inl e \<Rightarrow> Inl e | Inr subj_id \<Rightarrow>
              (case clean_uri pred of Inl e \<Rightarrow> Inl e | Inr pred_id \<Rightarrow>
               (case obj of
                  Literal v \<Rightarrow>
                    Inr (store_property sp subj_id pred_id \<lparr>val = v, is_literal = True\<rparr>)
                | URIRef ob \<Rightarrow>
                    (case clean_uri ob of Inl e \<Rightarrow> Inl e | Inr obj_id \<Rightarrow>
                     Inr (store_property sp subj_id pred_id
                            \<lparr>val = obj_id, is_literal = False\<rparr>))
                | BNode _ \<Rightarrow> Inr sp)))
         | Literal _ \<Rightarrow> Inr sp
         | BNode _ \<Rightarrow> Inr sp))"

fun collect_triples :: "subject_props \<Rightarrow> triple list \<Rightarrow> error + subject_props" where
  "collect_triples sp [] = Inr sp"
| "collect_triples sp (t # ts) =
     (case collect_triple sp t of Inl e \<Rightarrow> Inl e | Inr sp' \<Rightarrow> collect_triples sp' ts)"

record role_sets =
  class_subjects :: "string set"
  phenotype_subjects :: "string set"
  mechanism_subjects :: "string set"
  database_subjects :: "string set"

definition scan_role :: "string \<Rightarrow> subj_props \<Rightarrow> string set \<Rightarrow> string set" where
  \<comment> \<open>\<open>if p in props['properties']: for val in props['properties'][p]:
      if not val['is_literal']: S.add(val['value'])\<close>\<close>
  "scan_role p props S =
     (case map_of (properties props) p of
        None \<Rightarrow> S
      | Some vals \<Rightarrow> fold (\<lambda>v S. if \<not> is_literal v then insert (val v) S else S) vals S)"

definition scan_subject :: "role_sets \<Rightarrow> string \<times> subj_props \<Rightarrow> role_sets" where
  "scan_subject rs item =
     (case item of (subj_id, props) \<Rightarrow>
        \<lparr>class_subjects = scan_role ''has_resistance_class'' props (class_subjects rs),
         phenotype_subjects = scan_role ''has_predicted_phenotype'' props (phenotype_subjects rs),
         mechanism_subjects =
           scan_role ''has_mechanism_of_resistance'' props (mechanism_subjects rs),
         database_subjects = scan_role ''is_from_database'' props (database_subjects rs)\<rparr>)"

definition scan_roles :: "subject_props \<Rightarrow> role_sets" where
  \<comment> \<open>lines 167 to 193\<close>
  "scan_roles sp =
     foldl scan_subject
       \<lparr>class_subjects = {}, phenotype_subjects = {}, mechanism_subjects = {},
        database_subjects = {}\<rparr> sp"

record subject_entry =
  entry_id :: string
  label :: string
  entry_types :: "string list"
  entry_properties :: "(string \<times> obj_data list) list"
  gene_sequence :: "string option"
  protein_sequence :: "string option"

record category_lists =
  PanGene :: "string list"
  OriginalGene :: "string list"
  AntibioticClass :: "string list"
  Phenotype :: "string list"
  Mechanism :: "string list"
  Database :: "string list"

record metadata =
  total_triples :: nat
  total_subjects :: nat

record document =
  subjects :: "(string \<times> subject_entry) list"
  categories :: category_lists
  metadata :: metadata

definition pangene_types :: "string set" where
  "pangene_types =
     {''PanGene'', ''AntimicrobialResistanceGene'', ''BiocideResistanceGene'',
      ''MetalResistanceGene''}"

definition make_entry ::
  "(string \<times> string) list \<Rightarrow> (string \<times> string) list \<Rightarrow> string \<Rightarrow> subj_props \<Rightarrow> subject_entry" where
  \<comment> \<open>lines 207 to 229: the label, the copy of the properties and the optional
      sequence fields (a missing key of the entry is \<open>None\<close>)\<close>
  "make_entry gene_sequences protein_sequences subj_id props =
     \<lparr>entry_id = subj_id,
      label = (case map_of (properties props) ''rdfs:label'' of
                 None \<Rightarrow> subj_id
               | Some [] \<Rightarrow> subj_id
               | Some (v # _) \<Rightarrow> val v),
      entry_types = types props,
      entry_properties =
        fold (\<lambda>(pred, values) d. AList.update pred values d) (properties props) [],
      gene_sequence = map_of gene_sequences subj_id,
      protein_sequence = map_of protein_sequences subj_id\<rparr>"

definition categorize :: "role_sets \<Rightarrow> string \<Rightarrow> subj_props \<Rightarrow> category_lists \<Rightarrow> category_lists" where
  \<comment> \<open>lines 234 to 256\<close>
  "categorize rs subj_id props c0 =
     (let tys = set (types props);
          c1 = (if tys \<inter> pangene_types \<noteq> {}
                then c0\<lparr>PanGene := PanGene c0 @ [subj_id]\<rparr> else c0);
          c2 = (if ''OriginalGene'' \<in> tys
                then c1\<lparr>OriginalGene := OriginalGene c1 @ [subj_id]\<rparr> else c1);
          c3 = (if subj_id \<in> class_subjects rs
                then c2\<lparr>AntibioticClass := AntibioticClass c2 @ [subj_id]\<rparr> else c2);
          c4 = (if subj_id \<in> phenotype_subjects rs
                then c3\<lparr>Phenotype := Phenotype c3 @ [subj_id]\<rparr> else c3);
          c5 = (if subj_id \<in> mechanism_subjects rs
                then c4\<lparr>Mechanism := Mechanism c4 @ [subj_id]\<rparr> else c4)
      in if subj_id \<in> database_subjects rs
         then c5\<lparr>Database := Database c5 @ [subj_id]\<rparr> else c5)"

definition build_subject ::
  "(string \<times> string) list \<Rightarrow> (string \<times> string) list \<Rightarrow> role_sets \<Rightarrow> document \<Rightarrow>
   string \<times> subj_props \<Rightarrow> document" where
  \<comment> \<open>the body of the second \<open>for subj_id, props in subject_props.items()\<close>\<close>
  "build_subject gene_sequences protein_sequences rs data item =
     (case item of (subj_id, props) \<Rightarrow>
        data\<lparr>subjects :=
               AList.update subj_id (make_entry gene_sequences protein_sequences subj_id props)
                 (subjects data),
             categories := categorize rs subj_id props (categories data)\<rparr>)"

definition GENES_FASTA :: string where
  "GENES_FASTA = ''panres2_genes.fa''"

definition PROTEINS_FASTA :: string where
  "PROTEINS_FASTA = ''panres_final_protein.faa''"

definition convert_owl_to_json :: "triple list \<Rightarrow> fs \<Rightarrow> error + document" where
  "convert_owl_to_json graph files =
     (case snd (parse_fasta files GENES_FASTA) of Inl e \<Rightarrow> Inl e | Inr gene_sequences \<Rightarrow>
      (case snd (parse_fasta files PROTEINS_FASTA) of Inl e \<Rightarrow> Inl e | Inr protein_sequences \<Rightarrow>
       (case collect_triples [] graph of Inl e \<Rightarrow> Inl e | Inr sp \<Rightarrow>
          (let data0 = \<lparr>subjects = [],
                        categories = \<lparr>PanGene = [], OriginalGene = [], AntibioticClass = [],
                                      Phenotype = [], Mechanism = [], Database = []\<rparr>,
                        metadata = \<lparr>total_triples = length graph, total_subjects = 0\<rparr>\<rparr>;
               rs = scan_roles sp;
               data = foldl (build_subject gene_sequences protein_sequences rs) data0 sp
           in Inr (data\<lparr>metadata :=
                          (metadata data)\<lparr>total_subjects := length (subjects data)\<rparr>\<rparr>)))))"

section \<open>The specification's readings\<close>

fun version_then_identical :: "string \<Rightarrow> bool" where
  \<comment> \<open>the specification's condition on a header token: a version marker \<open>_v\<close> with an
      \<open>_identical\<close> marker somewhere after it\<close>
  "version_then_identical [] = False"
| "version_then_identical (c # cs) =
     ((startswith (c # cs) ''_v'' \<and> str_contains (drop 2 (c # cs)) ''_identical'')
      \<or> version_then_identical cs)"

definition resource_targets :: "string \<Rightarrow> (string \<times> obj_data list) list \<Rightarrow> string set" where
  \<comment> \<open>the resource-valued (non-literal) objects of predicate \<open>p\<close> in one subject's
      properties\<close>
  "resource_targets p props =
     (case map_of props p of
        None \<Rightarrow> {}
      | Some vs \<Rightarrow> val ` {v \<in> set vs. \<not> is_literal v})"

definition role_targets :: "string \<Rightarrow> (string \<times> subject_entry) list \<Rightarrow> string set" where
  \<comment> \<open>section 4.4 read on the document: every resource-valued object of the role
      predicate \<open>p\<close> in the properties of any subject\<close>
  "role_targets p subs =
     (\<Union>(k, e) \<in> set subs. resource_targets p (entry_properties e))"

definition rederive_categories :: "(string \<times> subject_entry) list \<Rightarrow> category_lists" where
  \<comment> \<open>the re-derivation that does reproduce the lists: the subjects of the document,
      in their order, that pass the type rule, or that lie in the section 4.4 role set
      \<open>role_targets\<close> re-derived from the document; a role target that is not itself
      a subject of the document is left out\<close>
  "rederive_categories subs =
     \<lparr>PanGene = [k. (k, e) \<leftarrow> subs, set (entry_types e) \<inter> pangene_types \<noteq> {}],
      OriginalGene = [k. (k, e) \<leftarrow> subs, ''OriginalGene'' \<in> set (entry_types e)],
      AntibioticClass = [k. (k, e) \<leftarrow> subs, k \<in> role_targets ''has_resistance_class'' subs],
      Phenotype = [k. (k, e) \<leftarrow> subs, k \<in> role_targets ''has_predicted_phenotype'' subs],
      Mechanism = [k. (k, e) \<leftarrow> subs, k \<in> role_targets ''has_mechanism_of_resistance'' subs],
      Database = [k. (k, e) \<leftarrow> subs, k \<in> role_targets ''is_from_database'' subs]\<rparr>"

definition blank_subject :: "triple \<Rightarrow> bool" where
  "blank_subject t = (case fst t of BNode _ \<Rightarrow> True | _ \<Rightarrow> False)"

definition blank_object :: "triple \<Rightarrow> bool" where
  "blank_object t = (case snd (snd t) of BNode _ \<Rightarrow> True | _ \<Rightarrow> False)"

section \<open>A small example run\<close>

text \<open>
  A graph of seven triples, two of them with a blank node, and the document the
  conversion produces for it when neither FASTA file exists.
\<close>

definition example_graph :: "triple list" where
  "example_graph =
     [(URIRef ''http://myonto.com/PanResOntology.owl#Gene1'',
       ''http://www.w3.org/1999/02/22-rdf-syntax-ns#type'',
       URIRef ''http://myonto.com/PanResOntology.owl#PanGene''),
      (BNode ''b1'', ''http://www.w3.org/2000/01/rdf-schema#label'', Literal ''hidden''),
      (URIRef ''http://myonto.com/PanResOntology.owl#Gene1'',
       ''http://myonto.com/PanResOntology.owl#has_resistance_class'',
       URIRef ''http://myonto.com/PanResOntology.owl#Beta''),
      (URIRef ''http://myonto.com/PanResOntology.owl#Gene1'',
       ''http://www.w3.org/1999/02/22-rdf-syntax-ns#type'',
       URIRef ''http://myonto.com/PanResOntology.owl#AntimicrobialResistanceGene''),
      (URIRef ''http://myonto.com/PanResOntology.owl#Beta'',
       ''http://www.w3.org/2000/01/rdf-schema#label'', Literal ''Beta-lactamase''),
      (URIRef ''http://myonto.com/PanResOntology.owl#Beta'',
       ''http://www.w3.org/2000/01/rdf-schema#seeAlso'', BNode ''b2''),
      (URIRef ''http://myonto.com/PanResOntology.owl#Gene1'',
       ''http://myonto.com/PanResOntology.owl#has_resistance_class'',
       URIRef ''http://myonto.com/PanResOntology.owl#Ghost'')]"

definition example_document :: document where
  "example_document =
     \<lparr>subjects =
        [(''Gene1'',
          \<lparr>entry_id = ''Gene1'', label = ''Gene1'',
           entry_types = [''PanGene'', ''AntimicrobialResistanceGene''],
           entry_properties =
             [(''rdf:type'',
               [\<lparr>val = ''PanGene'', is_literal = False\<rparr>,
                \<lparr>val = ''AntimicrobialResistanceGene'', is_literal = False\<rparr>]),
              (''has_resistance_class'',
               [\<lparr>val = ''Beta'', is_literal = False\<rparr>,
                \<lparr>val = ''Ghost'', is_literal = False\<rparr>])],
           gene_sequence = None, protein_sequence = None\<rparr>),
         (''Beta'',
          \<lparr>entry_id = ''Beta'', label = ''Beta-lactamase'',
           entry_types = [],
           entry_properties =
             [(''rdfs:label'', [\<lparr>val = ''Beta-lactamase'', is_literal = True\<rparr>])],
           gene_sequence = None, protein_sequence = None\<rparr>)],
      categories =
        \<lparr>PanGene = [''Gene1''], OriginalGene = [], AntibioticClass = [''Beta''],
         Phenotype = [], Mechanism = [], Database = []\<rparr>,
      metadata = \<lparr>total_triples = 7, total_subjects = 2\<rparr>\<rparr>"

section \<open>The invariant of the collected subjects\<close>

definition wf_props :: "subject_props \<Rightarrow> bool" where
  \<comment> \<open>what a Python dict guarantees: the keys of the subject mapping are distinct, and
      so are the predicate keys of each subject\<close>
  "wf_props sp \<longleftrightarrow>
     distinct (map fst sp) \<and> (\<forall>(k, p) \<in> set sp. distinct (map fst (properties p)))"

section \<open>String lemmas\<close>

lemma startswith_iff: "startswith s p \<longleftrightarrow> (\<exists>r. s = p @ r)"
  unfolding startswith_def
  by (metis append_eq_conv_conj append_take_drop_id)

lemma str_contains_char: "str_contains s [c] \<longleftrightarrow> c \<in> set s"
  by (induction s) (auto simp: startswith_def)

lemma str_split_not_Nil: "str_split sep acc s \<noteq> []"
  by (induction sep acc s rule: str_split.induct) auto

lemma str_split_char_absent: "c \<notin> set s \<Longrightarrow> str_split [c] acc s = [rev acc @ s]"
  by (induction s arbitrary: acc) (auto simp: startswith_def)

lemma str_split_char_last:
  "c \<notin> set frag \<Longrightarrow> last (str_split [c] acc (pre @ c # frag)) = frag"
proof (induction pre arbitrary: acc)
  case Nil
  then show ?case by (simp add: startswith_def str_split_char_absent)
next
  case (Cons x pre)
  then show ?case by (simp add: startswith_def str_split_not_Nil)
qed

lemma py_last_split_char:
  "c \<notin> set frag \<Longrightarrow> py_last (str_split [c] [] (pre @ c # frag)) = Inr frag"
  by (simp add: py_last_def str_split_not_Nil str_split_char_last)

section \<open>The URI normalizer is total and follows the namespace table\<close>

lemma clean_uri_loop_total: "\<exists>r. clean_uri_loop nss u = Inr r"
  by (induction nss u rule: clean_uri_loop.induct)
     (auto simp: py_last_def str_split_not_Nil)

lemma clean_uri_total: "\<exists>r. clean_uri u = Inr r"
  unfolding clean_uri_def by (rule clean_uri_loop_total)

lemma clean_uri_loop_nomatch:
  "\<forall>(ns, pfx) \<in> set nss. \<not> startswith u ns \<Longrightarrow> clean_uri_loop nss u = Inr u"
  by (induction nss u rule: clean_uri_loop.induct) auto

text \<open>
  The five namespaces differ in their character at index 21, so an IRI starts with
  at most one of them and the order of the table does not matter.
\<close>

lemma namespaces_prefix_of:
  assumes "(ns, pfx) \<in> set NAMESPACES" "startswith u ns"
  shows "pfx = (if u ! 21 = CHR ''R'' then [] else if u ! 21 = CHR ''1'' then ''xsd:''
                else if u ! 21 = CHR ''9'' then ''rdf:''
                else if u ! 21 = CHR ''0'' then ''rdfs:'' else ''owl:'')"
proof -
  from assms(2) obtain r where "u = ns @ r" by (auto simp: startswith_iff)
  with assms(1) show ?thesis
    by (auto simp: NAMESPACES_def BASE_IRI_def)
qed

lemma namespaces_exclusive:
  assumes "(ns, pfx) \<in> set NAMESPACES" "(ns', pfx') \<in> set NAMESPACES"
    and "startswith u ns" "startswith u ns'"
  shows "pfx' = pfx"
  unfolding namespaces_prefix_of [OF assms(1,3)] namespaces_prefix_of [OF assms(2,4)] ..

lemma namespaces_hash:
  "(ns, pfx) \<in> set NAMESPACES \<Longrightarrow> startswith u ns \<Longrightarrow> CHR ''#'' \<in> set u"
  by (auto simp: NAMESPACES_def BASE_IRI_def startswith_iff)

lemma namespaces_last_hash:
  "(ns, pfx) \<in> set NAMESPACES \<Longrightarrow> ns \<noteq> [] \<and> last ns = CHR ''#''"
  by (auto simp: NAMESPACES_def BASE_IRI_def)

lemma clean_uri_loop_match:
  assumes "(ns, pfx) \<in> set nss" "startswith u ns"
    and "\<forall>(ns', pfx') \<in> set nss. startswith u ns' \<longrightarrow> pfx' = pfx"
    and "u = pre @ CHR ''#'' # frag" "CHR ''#'' \<notin> set frag"
  shows "clean_uri_loop nss u = Inr (pfx @ frag)"
  using assms
proof (induction nss u rule: clean_uri_loop.induct)
  case (1 uri_str)
  then show ?case by simp
next
  case (2 namespace p rest uri_str)
  show ?case
  proof (cases "startswith uri_str namespace")
    case True
    with "2.prems"(3) have "p = pfx" by auto
    with True "2.prems"(4,5) show ?thesis
      by (simp add: str_contains_char py_last_split_char)
  next
    case False
    with "2.prems" have "(ns, pfx) \<in> set rest" by auto
    with False "2.prems" "2.IH" show ?thesis by auto
  qed
qed

text \<open>
  Claim C3. For every IRI string \<open>u\<close>: if \<open>u\<close> starts with a namespace of the table,
  \<open>clean_uri\<close> returns that namespace's short prefix (empty for the ontology base)
  followed by the local fragment. Each of the five namespaces contains \<open>#\<close>, so the
  IRI does too, and the fragment is the text after \<open>#\<close>: the text after the last
  \<open>#\<close> of the IRI when it has several, and so the text after the namespace when the
  rest of the IRI has no \<open>#\<close>. If \<open>u\<close> starts with no namespace of the table it is
  returned unchanged. On every input the function returns a value: the index
  \<open>[-1]\<close> is only ever taken of a non-empty list.
\<close>

theorem clean_uri_spec:
  "(\<forall>ns pfx. (ns, pfx) \<in> set NAMESPACES \<and> startswith u ns \<longrightarrow>
      (\<exists>pre frag. u = pre @ ''#'' @ frag \<and> CHR ''#'' \<notin> set frag \<and>
                  clean_uri u = Inr (pfx @ frag)))
   \<and> (\<forall>ns pfx frag. (ns, pfx) \<in> set NAMESPACES \<and> u = ns @ frag \<and> CHR ''#'' \<notin> set frag \<longrightarrow>
        clean_uri u = Inr (pfx @ frag))
   \<and> ((\<forall>(ns, pfx) \<in> set NAMESPACES. \<not> startswith u ns) \<longrightarrow> clean_uri u = Inr u)
   \<and> (\<exists>r. clean_uri u = Inr r)"
proof (intro conjI allI impI)
  fix ns pfx
  assume a: "(ns, pfx) \<in> set NAMESPACES \<and> startswith u ns"
  then have mem: "(ns, pfx) \<in> set NAMESPACES" and s: "startswith u ns" by blast+
  from mem s have "CHR ''#'' \<in> set u" by (rule namespaces_hash)
  then obtain pre frag where d: "u = pre @ CHR ''#'' # frag" and nf: "CHR ''#'' \<notin> set frag"
    by (auto dest: split_list_last)
  have ex: "\<forall>(ns', pfx') \<in> set NAMESPACES. startswith u ns' \<longrightarrow> pfx' = pfx"
    using mem s namespaces_exclusive by blast
  have "clean_uri u = Inr (pfx @ frag)"
    unfolding clean_uri_def by (rule clean_uri_loop_match [OF mem s ex d nf])
  with d nf show "\<exists>pre frag. u = pre @ ''#'' @ frag \<and> CHR ''#'' \<notin> set frag \<and>
                  clean_uri u = Inr (pfx @ frag)" by auto
next
  fix ns pfx frag
  assume a: "(ns, pfx) \<in> set NAMESPACES \<and> u = ns @ frag \<and> CHR ''#'' \<notin> set frag"
  then have mem: "(ns, pfx) \<in> set NAMESPACES" and u: "u = ns @ frag"
    and nf: "CHR ''#'' \<notin> set frag" by blast+
  from mem have "ns \<noteq> [] \<and> last ns = CHR ''#''" by (rule namespaces_last_hash)
  then have "ns = butlast ns @ ''#''" by (metis append_butlast_last_id)
  with u have u': "u = butlast ns @ CHR ''#'' # frag" by simp
  from u have s: "startswith u ns" unfolding startswith_iff by blast
  have ex: "\<forall>(ns', pfx') \<in> set NAMESPACES. startswith u ns' \<longrightarrow> pfx' = pfx"
    using mem s namespaces_exclusive by blast
  show "clean_uri u = Inr (pfx @ frag)"
    unfolding clean_uri_def by (rule clean_uri_loop_match [OF mem s ex u' nf])
next
  assume "\<forall>(ns, pfx) \<in> set NAMESPACES. \<not> startswith u ns"
  then show "clean_uri u = Inr u" unfolding clean_uri_def by (rule clean_uri_loop_nomatch)
next
  show "\<exists>r. clean_uri u = Inr r" by (rule clean_uri_total)
qed

theorem clean_uri_spec_witness:
  "(''http://www.w3.org/2000/01/rdf-schema#'', ''rdfs:'') \<in> set NAMESPACES
   \<and> startswith ''http://www.w3.org/2000/01/rdf-schema#label''
        ''http://www.w3.org/2000/01/rdf-schema#''
   \<and> clean_uri ''http://www.w3.org/2000/01/rdf-schema#label'' = Inr ''rdfs:label''
   \<and> clean_uri ''http://example.org/a/b'' = Inr ''http://example.org/a/b''"
proof -
  have m: "(''http://www.w3.org/2000/01/rdf-schema#'', ''rdfs:'') \<in> set NAMESPACES"
    by (simp add: NAMESPACES_def)
  have n: "\<forall>(ns, pfx) \<in> set NAMESPACES. \<not> startswith ''http://example.org/a/b'' ns"
    by (simp add: NAMESPACES_def BASE_IRI_def startswith_def)
  have s: "startswith ''http://www.w3.org/2000/01/rdf-schema#label''
             ''http://www.w3.org/2000/01/rdf-schema#''"
    by (simp add: startswith_def)
  have e: "''http://www.w3.org/2000/01/rdf-schema#label''
             = ''http://www.w3.org/2000/01/rdf-schema#'' @ ''label''"
    by simp
  have h: "CHR ''#'' \<notin> set ''label''" by simp
  have sp: "\<forall>ns pfx frag. (ns, pfx) \<in> set NAMESPACES
              \<and> ''http://www.w3.org/2000/01/rdf-schema#label'' = ns @ frag
              \<and> CHR ''#'' \<notin> set frag \<longrightarrow>
              clean_uri ''http://www.w3.org/2000/01/rdf-schema#label'' = Inr (pfx @ frag)"
    using clean_uri_spec [of "''http://www.w3.org/2000/01/rdf-schema#label''"] by blast
  have c1: "clean_uri ''http://www.w3.org/2000/01/rdf-schema#label'' = Inr (''rdfs:'' @ ''label'')"
    using sp m e h by blast
  have c2: "clean_uri ''http://example.org/a/b'' = Inr ''http://example.org/a/b''"
    using clean_uri_spec [of "''http://example.org/a/b''"] n by blast
  from c1 have c1': "clean_uri ''http://www.w3.org/2000/01/rdf-schema#label'' = Inr ''rdfs:label''"
    by simp
  show ?thesis using m s c1' c2 by blast
qed

section \<open>The FASTA loader\<close>

lemma str_contains_iff: "str_contains s p \<longleftrightarrow> (\<exists>a b. s = a @ p @ b)"
proof (induction s)
  case Nil
  then show ?case by auto
next
  case (Cons c cs)
  show ?case
  proof
    assume "str_contains (c # cs) p"
    then consider "startswith (c # cs) p" | "str_contains cs p" by auto
    then show "\<exists>a b. c # cs = a @ p @ b"
    proof cases
      case 1
      then obtain r where "c # cs = p @ r" by (auto simp: startswith_iff)
      then have "c # cs = [] @ p @ r" by simp
      then show ?thesis by blast
    next
      case 2
      with Cons obtain a b where "cs = a @ p @ b" by blast
      then have "c # cs = (c # a) @ p @ b" by simp
      then show ?thesis by blast
    qed
  next
    assume "\<exists>a b. c # cs = a @ p @ b"
    then obtain a b where ab: "c # cs = a @ p @ b" by blast
    show "str_contains (c # cs) p"
    proof (cases a)
      case Nil
      with ab have "startswith (c # cs) p" unfolding startswith_iff by auto
      then show ?thesis by simp
    next
      case (Cons x a')
      with ab have "cs = a' @ p @ b" by simp
      with Cons.IH show ?thesis by auto
    qed
  qed
qed

lemma version_then_identical_iff:
  "version_then_identical tok \<longleftrightarrow> (\<exists>a b c. tok = a @ ''_v'' @ b @ ''_identical'' @ c)"
proof (induction tok)
  case Nil
  then show ?case by simp
next
  case (Cons x xs)
  show ?case
  proof
    assume "version_then_identical (x # xs)"
    then consider "startswith (x # xs) ''_v'' \<and> str_contains (drop 2 (x # xs)) ''_identical''"
      | "version_then_identical xs" by auto
    then show "\<exists>a b c. x # xs = a @ ''_v'' @ b @ ''_identical'' @ c"
    proof cases
      case 1
      then obtain r where r: "x # xs = ''_v'' @ r" by (auto simp: startswith_iff)
      then have "drop 2 (x # xs) = r" by simp
      with 1 obtain b c where "r = b @ ''_identical'' @ c" by (auto simp: str_contains_iff)
      with r have "x # xs = [] @ ''_v'' @ b @ ''_identical'' @ c" by simp
      then show ?thesis by blast
    next
      case 2
      with Cons obtain a b c where "xs = a @ ''_v'' @ b @ ''_identical'' @ c" by blast
      then have "x # xs = (x # a) @ ''_v'' @ b @ ''_identical'' @ c" by simp
      then show ?thesis by blast
    qed
  next
    assume "\<exists>a b c. x # xs = a @ ''_v'' @ b @ ''_identical'' @ c"
    then obtain a b c where abc: "x # xs = a @ ''_v'' @ b @ ''_identical'' @ c" by blast
    show "version_then_identical (x # xs)"
    proof (cases a)
      case Nil
      with abc have "x # xs = ''_v'' @ (b @ ''_identical'' @ c)" by simp
      then have "startswith (x # xs) ''_v''" and "drop 2 (x # xs) = b @ ''_identical'' @ c"
        by (auto simp: startswith_def)
      then show ?thesis using str_contains_iff by auto
    next
      case (Cons y a')
      with abc have "xs = a' @ ''_v'' @ b @ ''_identical'' @ c" by simp
      with Cons.IH show ?thesis by auto
    qed
  qed
qed

lemma str_split_first:
  assumes "sep \<noteq> []" "str_contains s sep"
  shows "\<exists>pre post. s = pre @ sep @ post \<and> hd (str_split sep acc s) = rev acc @ pre \<and>
           (\<forall>a b. s = a @ sep @ b \<longrightarrow> length pre \<le> length a)"
  using assms
proof (induction s arbitrary: acc)
  case Nil
  then show ?case by simp
next
  case (Cons c cs)
  show ?case
  proof (cases "startswith (c # cs) sep")
    case True
    then obtain r where "c # cs = [] @ sep @ r" by (auto simp: startswith_iff)
    moreover from True Cons.prems have "hd (str_split sep acc (c # cs)) = rev acc @ []" by simp
    ultimately show ?thesis by (metis le0 list.size(3))
  next
    case False
    with Cons.prems have "str_contains cs sep" by simp
    from Cons.IH [OF Cons.prems(1) this, of "c # acc"]
    obtain pre post where p: "cs = pre @ sep @ post"
      "hd (str_split sep (c # acc) cs) = rev (c # acc) @ pre"
      "\<forall>a b. cs = a @ sep @ b \<longrightarrow> length pre \<le> length a" by blast
    have 1: "c # cs = (c # pre) @ sep @ post" using p(1) by simp
    have 2: "hd (str_split sep acc (c # cs)) = rev acc @ (c # pre)" using False p(2) by simp
    have 3: "\<forall>a b. c # cs = a @ sep @ b \<longrightarrow> length (c # pre) \<le> length a"
    proof (intro allI impI)
      fix a b assume ab: "c # cs = a @ sep @ b"
      show "length (c # pre) \<le> length a"
      proof (cases a)
        case Nil
        with ab False show ?thesis by (auto simp: startswith_iff)
      next
        case (Cons y a')
        with ab have "cs = a' @ sep @ b" by simp
        with p(3) have "length pre \<le> length a'" by blast
        with Cons show ?thesis by simp
      qed
    qed
    from 1 2 3 show ?thesis by blast
  qed
qed

lemma py_first_str_split:
  "\<exists>x. py_first (str_split sep acc s) = Inr x"
  using str_split_not_Nil [of sep acc s] by (cases "str_split sep acc s") (auto simp: py_first_def)

lemma py_first_hd: "xs \<noteq> [] \<Longrightarrow> py_first xs = Inr (hd xs)"
  by (cases xs) (auto simp: py_first_def)

lemma split_ws_Nil_iff: "split_ws cur s = [] \<longleftrightarrow> cur = [] \<and> (\<forall>c \<in> set s. is_space c)"
  by (induction s arbitrary: cur) auto

lemma str_strip_last: "str_strip s \<noteq> [] \<Longrightarrow> \<not> is_space (last (str_strip s))"
  unfolding str_strip_def
  by (metis hd_dropWhile last_rev rev_is_Nil_conv rev_rev_ident)

lemma gt_not_space: "\<not> is_space CHR ''>''"
  by (simp add: is_space_def)

lemma header_fails_iff:
  assumes "startswith (str_strip raw) ''>''"
  shows "header_id (str_strip raw) = Inl e \<longleftrightarrow> str_strip raw = ''>''"
proof -
  from assms obtain rest where r: "str_strip raw = CHR ''>'' # rest"
    by (auto simp: startswith_iff)
  have "split_ws [] rest = [] \<longleftrightarrow> rest = []"
  proof
    assume "split_ws [] rest = []"
    then have sp: "\<forall>c \<in> set rest. is_space c" by (simp add: split_ws_Nil_iff)
    show "rest = []"
    proof (rule ccontr)
      assume "rest \<noteq> []"
      then have "last (str_strip raw) \<in> set rest" using r by simp
      with sp have "is_space (last (str_strip raw))" by blast
      with r show False using str_strip_last [of raw] by simp
    qed
  qed simp
  moreover have "header_id (str_strip raw) = Inl e \<longleftrightarrow> split_ws [] rest = []"
  proof (cases "split_ws [] rest")
    case Nil
    with r show ?thesis by (cases e) (simp add: header_id_def py_first_def)
  next
    case (Cons tok others)
    obtain x where "py_first (str_split ''_v'' [] tok) = Inr x"
      using py_first_str_split by blast
    with r Cons show ?thesis by (simp add: header_id_def py_first_def)
  qed
  ultimately show ?thesis using r by simp
qed

lemma fasta_line_fails_iff: "fasta_line st raw = Inl e \<longleftrightarrow> str_strip raw = ''>''"
proof (cases "startswith (str_strip raw) ''>''")
  case True
  then show ?thesis using header_fails_iff [OF True, of e]
    by (auto simp: fasta_line_def Let_def split: sum.splits)
next
  case False
  then show ?thesis by (auto simp: fasta_line_def Let_def startswith_def)
qed

lemma fasta_lines_fails_iff:
  "fasta_lines st lines = Inl e \<longleftrightarrow> (\<exists>l \<in> set lines. str_strip l = ''>'')"
proof (induction lines arbitrary: st)
  case Nil
  then show ?case by simp
next
  case (Cons l ls)
  show ?case
  proof (cases "fasta_line st l")
    case (Inl e')
    then have "str_strip l = ''>''" using fasta_line_fails_iff by blast
    with Inl show ?thesis by (cases e; cases e') simp
  next
    case (Inr st')
    then have "str_strip l \<noteq> ''>''" using fasta_line_fails_iff [of st l e] by auto
    with Inr Cons.IH [of st'] show ?thesis by simp
  qed
qed

lemma fasta_lines_body:
  "\<forall>l \<in> set body. \<not> startswith (str_strip l) ''>'' \<Longrightarrow>
   fasta_lines st body = Inr (st\<lparr>current_seq := current_seq st @ map str_strip body\<rparr>)"
  by (induction body arbitrary: st) (auto simp: fasta_line_def Let_def)

lemma header_id_token:
  assumes "split_ws [] rest = tok # others"
  shows "\<exists>cid. header_id (CHR ''>'' # rest) = Inr cid \<and>
           (if str_contains tok ''_v'' \<and> str_contains tok ''_identical''
            then (\<exists>post. tok = cid @ ''_v'' @ post) \<and>
                 (\<forall>a b. tok = a @ ''_v'' @ b \<longrightarrow> length cid \<le> length a)
            else cid = tok)"
proof (cases "str_contains tok ''_v'' \<and> str_contains tok ''_identical''")
  case True
  then have c: "str_contains tok ''_v''" by simp
  from str_split_first [OF _ c, of "[]"]
  obtain pre post where p: "tok = pre @ ''_v'' @ post" "hd (str_split ''_v'' [] tok) = pre"
    "\<forall>a b. tok = a @ ''_v'' @ b \<longrightarrow> length pre \<le> length a" by auto
  have "py_first (str_split ''_v'' [] tok) = Inr pre"
    using py_first_hd [OF str_split_not_Nil, of "''_v''" "[]" tok] p(2) by simp
  with assms True have "header_id (CHR ''>'' # rest) = Inr pre"
    by (simp add: header_id_def py_first_def)
  with p(1,3) True show ?thesis by auto
next
  case False
  with assms have "header_id (CHR ''>'' # rest) = Inr tok"
    by (auto simp: header_id_def py_first_def)
  with False show ?thesis by auto
qed

text \<open>
  Claim C9. For an existing file, \<open>parse_fasta\<close> raises IndexError exactly when some
  line of the file is, after stripping, the bare marker \<open>>\<close>: the token list of the
  rest of such a line is empty and its first element is indexed. When every line that
  starts (after stripping) with \<open>>\<close> has a non-whitespace character after the marker,
  the call returns a mapping.
\<close>

theorem parse_fasta_bare_header:
  assumes "files path = Some lines"
  shows "(snd (parse_fasta files path) = Inl IndexError \<longleftrightarrow>
            (\<exists>l \<in> set lines. str_strip l = ''>''))
       \<and> ((\<forall>l \<in> set lines. startswith (str_strip l) ''>'' \<longrightarrow>
                (\<exists>c \<in> set (drop 1 (str_strip l)). \<not> is_space c)) \<longrightarrow>
            (\<exists>m. snd (parse_fasta files path) = Inr m))"
proof -
  let ?st0 = "\<lparr>sequences = [], current_id = None, current_seq = []\<rparr>"
  have a: "snd (parse_fasta files path) = Inl IndexError \<longleftrightarrow>
             fasta_lines ?st0 lines = Inl IndexError"
    using assms by (cases "fasta_lines ?st0 lines") (auto simp: parse_fasta_def Let_def)
  have 1: "snd (parse_fasta files path) = Inl IndexError \<longleftrightarrow>
            (\<exists>l \<in> set lines. str_strip l = ''>'')"
    unfolding a by (rule fasta_lines_fails_iff)
  have 2: "\<exists>m. snd (parse_fasta files path) = Inr m"
    if h: "\<forall>l \<in> set lines. startswith (str_strip l) ''>'' \<longrightarrow>
                (\<exists>c \<in> set (drop 1 (str_strip l)). \<not> is_space c)"
  proof -
    have "\<not> (\<exists>l \<in> set lines. str_strip l = ''>'')"
    proof
      assume "\<exists>l \<in> set lines. str_strip l = ''>''"
      then obtain l where "l \<in> set lines" "str_strip l = ''>''" by blast
      with h show False by (auto simp: startswith_def)
    qed
    with 1 have "snd (parse_fasta files path) \<noteq> Inl IndexError" by simp
    then show ?thesis by (cases "snd (parse_fasta files path)") (auto intro: error.exhaust)
  qed
  from 1 2 show ?thesis by blast
qed

theorem parse_fasta_bare_header_witness:
  "snd (parse_fasta [''f'' \<mapsto> [''>a'', ''AC'', ''  >  '']] ''f'') = Inl IndexError
   \<and> (\<exists>m. snd (parse_fasta [''f'' \<mapsto> [''>a b'', ''AC'']] ''f'') = Inr m)"
proof -
  have f1: "[''f'' \<mapsto> [''>a'', ''AC'', ''  >  '']] ''f'' = Some [''>a'', ''AC'', ''  >  '']"
    by simp
  have f2: "[''f'' \<mapsto> [''>a b'', ''AC'']] ''f'' = Some [''>a b'', ''AC'']"
    by simp
  have b: "\<exists>l \<in> set [''>a'', ''AC'', ''  >  '']. str_strip l = ''>''"
    by code_simp
  have g: "\<forall>l \<in> set [''>a b'', ''AC'']. startswith (str_strip l) ''>'' \<longrightarrow>
                (\<exists>c \<in> set (drop 1 (str_strip l)). \<not> is_space c)"
    by code_simp
  from parse_fasta_bare_header [of "[''f'' \<mapsto> [''>a'', ''AC'', ''  >  '']]" "''f''", OF f1] b
  have 1: "snd (parse_fasta [''f'' \<mapsto> [''>a'', ''AC'', ''  >  '']] ''f'') = Inl IndexError"
    by blast
  from parse_fasta_bare_header [of "[''f'' \<mapsto> [''>a b'', ''AC'']]" "''f''", OF f2] g
  have 2: "\<exists>m. snd (parse_fasta [''f'' \<mapsto> [''>a b'', ''AC'']] ''f'') = Inr m"
    by blast
  from 1 2 show ?thesis by blast
qed

text \<open>
  Claim C4, as the code has it. The claim asks for an \<open>_identical\<close> marker after the
  version marker (\<open>version_then_identical\<close>, characterised by
  \<open>version_then_identical_iff\<close>); the code tests the two markers independently, so
  a token such as \<open>x_identical_v2\<close>, where \<open>_identical\<close> comes first, is truncated
  as well, where the claim leaves it unchanged.
\<close>

theorem fasta_header_order_counterexample:
  "str_strip ''>x_identical_v2'' = ''>x_identical_v2''
   \<and> split_ws [] ''x_identical_v2'' = [''x_identical_v2'']
   \<and> \<not> version_then_identical ''x_identical_v2''
   \<and> header_id ''>x_identical_v2'' = Inr ''x_identical''
   \<and> snd (parse_fasta [''f'' \<mapsto> [''>x_identical_v2'', ''ACGT'']] ''f'')
         = Inr [(''x_identical'', ''ACGT'')]"
  by code_simp

text \<open>
  Claim C4, amended. For a header line (a line that starts with \<open>>\<close> once stripped)
  with at least one token after the marker, the record identifier is the first
  whitespace-delimited token \<open>tok\<close>; if \<open>tok\<close> contains \<open>_v\<close> and contains
  \<open>_identical\<close>, wherever they stand, the identifier is \<open>tok\<close> cut at its first
  \<open>_v\<close>, otherwise \<open>tok\<close> itself. A line that is not a header is stripped and
  appended to the sequence of the current record, and a file of one header with a
  non-empty identifier followed by such lines yields exactly that identifier mapped to
  their concatenation. The file \<open>>pan_42_v1.0.1_identical\<close>, \<open>ACGT\<close>, \<open>GGCC\<close> yields
  exactly \<open>pan_42\<close> mapped to \<open>ACGTGGCC\<close>.
\<close>

theorem fasta_record_rules:
  "(str_strip raw = CHR ''>'' # rest \<and> split_ws [] rest = tok # others \<longrightarrow>
      (\<exists>cid. fasta_line st raw =
                Inr \<lparr>sequences = save_sequence st, current_id = Some cid, current_seq = []\<rparr>
         \<and> (if str_contains tok ''_v'' \<and> str_contains tok ''_identical''
            then (\<exists>post. tok = cid @ ''_v'' @ post) \<and>
                 (\<forall>a b. tok = a @ ''_v'' @ b \<longrightarrow> length cid \<le> length a)
            else cid = tok)))
   \<and> (\<not> startswith (str_strip raw) ''>'' \<longrightarrow>
        fasta_line st raw = Inr (st\<lparr>current_seq := current_seq st @ [str_strip raw]\<rparr>))
   \<and> (files path = Some (hdr # body) \<and> startswith (str_strip hdr) ''>'' \<and>
        header_id (str_strip hdr) = Inr rid \<and> rid \<noteq> [] \<and>
        (\<forall>l \<in> set body. \<not> startswith (str_strip l) ''>'') \<longrightarrow>
        snd (parse_fasta files path) = Inr [(rid, concat (map str_strip body))])
   \<and> snd (parse_fasta [''f'' \<mapsto> [''>pan_42_v1.0.1_identical'', ''ACGT'', ''GGCC'']] ''f'')
        = Inr [(''pan_42'', ''ACGTGGCC'')]"
proof (intro conjI impI)
  assume a: "str_strip raw = CHR ''>'' # rest \<and> split_ws [] rest = tok # others"
  then have s: "str_strip raw = CHR ''>'' # rest" and t: "split_ws [] rest = tok # others"
    by blast+
  from header_id_token [OF t] obtain cid where
    c: "header_id (CHR ''>'' # rest) = Inr cid"
       "if str_contains tok ''_v'' \<and> str_contains tok ''_identical''
        then (\<exists>post. tok = cid @ ''_v'' @ post) \<and>
             (\<forall>a b. tok = a @ ''_v'' @ b \<longrightarrow> length cid \<le> length a)
        else cid = tok" by blast
  from s c(1) have "fasta_line st raw =
      Inr \<lparr>sequences = save_sequence st, current_id = Some cid, current_seq = []\<rparr>"
    by (simp add: fasta_line_def Let_def startswith_def)
  with c(2) show "\<exists>cid. fasta_line st raw =
                Inr \<lparr>sequences = save_sequence st, current_id = Some cid, current_seq = []\<rparr>
         \<and> (if str_contains tok ''_v'' \<and> str_contains tok ''_identical''
            then (\<exists>post. tok = cid @ ''_v'' @ post) \<and>
                 (\<forall>a b. tok = a @ ''_v'' @ b \<longrightarrow> length cid \<le> length a)
            else cid = tok)" by blast
next
  assume "\<not> startswith (str_strip raw) ''>''"
  then show "fasta_line st raw = Inr (st\<lparr>current_seq := current_seq st @ [str_strip raw]\<rparr>)"
    by (simp add: fasta_line_def Let_def)
next
  assume a: "files path = Some (hdr # body) \<and> startswith (str_strip hdr) ''>'' \<and>
        header_id (str_strip hdr) = Inr rid \<and> rid \<noteq> [] \<and>
        (\<forall>l \<in> set body. \<not> startswith (str_strip l) ''>'')"
  let ?st0 = "\<lparr>sequences = [], current_id = None, current_seq = []\<rparr>"
  let ?st1 = "\<lparr>sequences = [], current_id = Some rid, current_seq = []\<rparr>"
  from a have "fasta_line ?st0 hdr = Inr ?st1"
    by (simp add: fasta_line_def Let_def save_sequence_def)
  moreover from a have "fasta_lines ?st1 body
      = Inr (?st1\<lparr>current_seq := current_seq ?st1 @ map str_strip body\<rparr>)"
    by (intro fasta_lines_body) blast
  ultimately have "fasta_lines ?st0 (hdr # body)
      = Inr \<lparr>sequences = [], current_id = Some rid, current_seq = map str_strip body\<rparr>"
    by simp
  with a show "snd (parse_fasta files path) = Inr [(rid, concat (map str_strip body))]"
    by (simp add: parse_fasta_def Let_def save_sequence_def)
next
  show "snd (parse_fasta [''f'' \<mapsto> [''>pan_42_v1.0.1_identical'', ''ACGT'', ''GGCC'']] ''f'')
        = Inr [(''pan_42'', ''ACGTGGCC'')]"
    by code_simp
qed

theorem fasta_record_rules_witness:
  "(\<exists>cid. fasta_line \<lparr>sequences = [], current_id = None, current_seq = []\<rparr> '' >a_v1_identical x ''
            = Inr \<lparr>sequences = [], current_id = Some cid, current_seq = []\<rparr>
          \<and> (\<exists>post. ''a_v1_identical'' = cid @ ''_v'' @ post))
   \<and> fasta_line \<lparr>sequences = [], current_id = Some ''a'', current_seq = [''AC'']\<rparr> '' GT ''
       = Inr \<lparr>sequences = [], current_id = Some ''a'', current_seq = [''AC'', ''GT'']\<rparr>
   \<and> snd (parse_fasta [''f'' \<mapsto> [''>a b'', ''AC '', '' GT'']] ''f'') = Inr [(''a'', ''ACGT'')]"
proof -
  let ?st0 = "\<lparr>sequences = [], current_id = None, current_seq = []\<rparr>"
  let ?st1 = "\<lparr>sequences = [], current_id = Some ''a'', current_seq = [''AC'']\<rparr>"
  let ?fs = "[''f'' \<mapsto> [''>a b'', ''AC '', '' GT'']]"
  have h1: "str_strip '' >a_v1_identical x '' = CHR ''>'' # ''a_v1_identical x''
            \<and> split_ws [] ''a_v1_identical x'' = ''a_v1_identical'' # [''x'']"
    by code_simp
  have c1: "str_contains ''a_v1_identical'' ''_v'' \<and> str_contains ''a_v1_identical'' ''_identical''"
    by code_simp
  have s0: "save_sequence ?st0 = []" by (simp add: save_sequence_def)
  have h2: "\<not> startswith (str_strip '' GT '') ''>''" by code_simp
  have e2: "str_strip '' GT '' = ''GT''" by code_simp
  have h3: "?fs ''f'' = Some (''>a b'' # [''AC '', '' GT'']) \<and> startswith (str_strip ''>a b'') ''>'' \<and>
        header_id (str_strip ''>a b'') = Inr ''a'' \<and> ''a'' \<noteq> [] \<and>
        (\<forall>l \<in> set [''AC '', '' GT'']. \<not> startswith (str_strip l) ''>'')"
    by code_simp
  have e3: "concat (map str_strip [''AC '', '' GT'']) = ''ACGT''" by code_simp
  note T1 = fasta_record_rules [of "'' >a_v1_identical x ''" "''a_v1_identical x''" "''a_v1_identical''"
      "[''x'']" ?st0]
  note T2 = fasta_record_rules [of "'' GT ''" _ _ _ ?st1]
  note T3 = fasta_record_rules [of _ _ _ _ _ ?fs "''f''" "''>a b''" "[''AC '', '' GT'']" "''a''"]
  have c1': "(str_contains ''a_v1_identical'' ''_v'' \<and> str_contains ''a_v1_identical'' ''_identical'') = True"
    using c1 by simp
  have 1: "\<exists>cid. fasta_line ?st0 '' >a_v1_identical x ''
            = Inr \<lparr>sequences = [], current_id = Some cid, current_seq = []\<rparr>
          \<and> (\<exists>post. ''a_v1_identical'' = cid @ ''_v'' @ post)"
    using T1 [THEN conjunct1, rule_format, OF h1] unfolding c1' if_True s0 by blast
  have 2: "fasta_line ?st1 '' GT ''
       = Inr \<lparr>sequences = [], current_id = Some ''a'', current_seq = [''AC'', ''GT'']\<rparr>"
    using T2 [THEN conjunct2, THEN conjunct1, rule_format, OF h2] unfolding e2 by simp
  have 3: "snd (parse_fasta ?fs ''f'') = Inr [(''a'', ''ACGT'')]"
    using T3 [THEN conjunct2, THEN conjunct2, THEN conjunct1, rule_format, OF h3]
    unfolding e3 .
  from 1 2 3 show ?thesis by blast
qed

section \<open>The collected subjects and the built document\<close>

lemma dict_modify_keys:
  "map fst (dict_modify d f k kvs) =
     (if k \<in> set (map fst kvs) then map fst kvs else map fst kvs @ [k])"
proof (induction kvs)
  case Nil
  then show ?case by simp
next
  case (Cons kv kvs)
  obtain k' v where kv: "kv = (k', v)" by (cases kv)
  show ?case
  proof (cases "k' = k")
    case True
    with kv show ?thesis by simp
  next
    case False
    with kv Cons.IH show ?thesis by simp
  qed
qed

lemma dict_modify_distinct:
  "distinct (map fst kvs) \<Longrightarrow> distinct (map fst (dict_modify d f k kvs))"
  by (simp add: dict_modify_keys)

lemma dict_modify_pred:
  assumes "\<forall>(k, v) \<in> set kvs. P v" "P (f d)" "\<And>v. P v \<Longrightarrow> P (f v)"
  shows "\<forall>(k, v) \<in> set (dict_modify d f k' kvs). P v"
  using assms by (induction kvs) (auto split: if_splits)

lemma store_property_wf:
  assumes "wf_props sp"
  shows "wf_props (store_property sp subj_id pred_id od)"
proof -
  let ?P = "\<lambda>p. distinct (map fst (properties p))"
  let ?d = "\<lparr>types = [], properties = []\<rparr>"
  let ?f = "\<lambda>p. p\<lparr>properties := dict_modify [] (\<lambda>vs. vs @ [od]) pred_id (properties p)\<rparr>"
  let ?g = "\<lambda>p. p\<lparr>types := types p @ [val od]\<rparr>"
  let ?sp1 = "dict_modify ?d ?f subj_id sp"
  from assms have d0: "distinct (map fst sp)" and p0: "\<forall>(k, v) \<in> set sp. ?P v"
    by (auto simp: wf_props_def)
  have d1: "distinct (map fst ?sp1)" using d0 by (rule dict_modify_distinct)
  have p1: "\<forall>(k, v) \<in> set ?sp1. ?P v"
    by (rule dict_modify_pred [OF p0]) (simp_all add: dict_modify_distinct)
  have d2: "distinct (map fst (dict_modify ?d ?g subj_id ?sp1))"
    using d1 by (rule dict_modify_distinct)
  have p2: "\<forall>(k, v) \<in> set (dict_modify ?d ?g subj_id ?sp1). ?P v"
    by (rule dict_modify_pred [OF p1]) simp_all
  show ?thesis
  proof (cases "pred_id = ''rdf:type''")
    case True
    then have "store_property sp subj_id pred_id od = dict_modify ?d ?g subj_id ?sp1"
      by (simp add: store_property_def Let_def)
    with d2 p2 show ?thesis unfolding wf_props_def by simp
  next
    case False
    then have "store_property sp subj_id pred_id od = ?sp1"
      by (simp add: store_property_def Let_def)
    with d1 p1 show ?thesis unfolding wf_props_def by simp
  qed
qed

lemma collect_triple_total:
  "\<exists>sp'. collect_triple sp t = Inr sp' \<and> (wf_props sp \<longrightarrow> wf_props sp')"
proof -
  obtain subj pred obj where t: "t = (subj, pred, obj)" by (cases t)
  show ?thesis
  proof (cases subj)
    case (URIRef s)
    obtain subj_id where s: "clean_uri s = Inr subj_id" using clean_uri_total by blast
    obtain pred_id where p: "clean_uri pred = Inr pred_id" using clean_uri_total by blast
    show ?thesis
    proof (cases obj)
      case (URIRef ob)
      obtain obj_id where "clean_uri ob = Inr obj_id" using clean_uri_total by blast
      with t \<open>subj = URIRef s\<close> s p URIRef show ?thesis
        by (simp add: collect_triple_def store_property_wf)
    next
      case (Literal v)
      with t \<open>subj = URIRef s\<close> s p show ?thesis
        by (simp add: collect_triple_def store_property_wf)
    next
      case (BNode b)
      with t \<open>subj = URIRef s\<close> s p show ?thesis
        by (simp add: collect_triple_def)
    qed
  next
    case (Literal v)
    with t show ?thesis by (simp add: collect_triple_def)
  next
    case (BNode b)
    with t show ?thesis by (simp add: collect_triple_def)
  qed
qed

lemma collect_triples_total:
  "\<exists>sp'. collect_triples sp ts = Inr sp' \<and> (wf_props sp \<longrightarrow> wf_props sp')"
proof (induction ts arbitrary: sp)
  case Nil
  then show ?case by simp
next
  case (Cons t ts)
  obtain sp1 where 1: "collect_triple sp t = Inr sp1" "wf_props sp \<longrightarrow> wf_props sp1"
    using collect_triple_total by blast
  obtain sp2 where 2: "collect_triples sp1 ts = Inr sp2" "wf_props sp1 \<longrightarrow> wf_props sp2"
    using Cons.IH by blast
  from 1 2 show ?case by simp
qed

lemma wf_props_Nil: "wf_props []"
  by (simp add: wf_props_def)

lemma collect_triple_skip:
  assumes "blank_subject t \<or> blank_object t"
  shows "collect_triple sp t = Inr sp"
proof -
  obtain subj pred obj where t: "t = (subj, pred, obj)" by (cases t)
  show ?thesis
  proof (cases subj)
    case (URIRef s)
    with assms t obtain b where b: "obj = BNode b"
      by (cases obj) (auto simp: blank_subject_def blank_object_def)
    obtain subj_id where s: "clean_uri s = Inr subj_id" using clean_uri_total by blast
    obtain pred_id where p: "clean_uri pred = Inr pred_id" using clean_uri_total by blast
    from t URIRef b s p show ?thesis by (simp add: collect_triple_def)
  next
    case (Literal v)
    with t show ?thesis by (simp add: collect_triple_def)
  next
    case (BNode b)
    with t show ?thesis by (simp add: collect_triple_def)
  qed
qed

lemma collect_triples_filter:
  "collect_triples sp (filter (\<lambda>t. \<not> blank_subject t \<and> \<not> blank_object t) ts)
     = collect_triples sp ts"
proof (induction ts arbitrary: sp)
  case Nil
  then show ?case by simp
next
  case (Cons t ts)
  show ?case
  proof (cases "blank_subject t \<or> blank_object t")
    case True
    then have "collect_triple sp t = Inr sp" by (rule collect_triple_skip)
    with True Cons.IH show ?thesis by auto
  next
    case False
    with Cons.IH show ?thesis by (auto split: sum.splits)
  qed
qed

lemma update_fresh: "k \<notin> fst ` set acc \<Longrightarrow> AList.update k v acc = acc @ [(k, v)]"
  by (induction acc) auto

lemma copy_properties:
  "distinct (map fst (acc @ ps)) \<Longrightarrow>
   fold (\<lambda>(pred, values) d. AList.update pred values d) ps acc = acc @ ps"
proof (induction ps arbitrary: acc)
  case Nil
  then show ?case by simp
next
  case (Cons kv ps)
  obtain k v where kv: "kv = (k, v)" by (cases kv)
  from Cons.prems kv have "k \<notin> fst ` set acc" by auto
  then have u: "AList.update k v acc = acc @ [(k, v)]" by (rule update_fresh)
  from Cons.prems kv have "distinct (map fst ((acc @ [(k, v)]) @ ps))" by simp
  from Cons.IH [OF this] u kv show ?case by simp
qed

lemma make_entry_properties:
  "distinct (map fst (properties p)) \<Longrightarrow>
   entry_properties (make_entry gs ps k p) = properties p"
  using copy_properties [of "[]" "properties p"] by (simp add: make_entry_def)

lemma make_entry_simps:
  "entry_id (make_entry gs ps k p) = k"
  "entry_types (make_entry gs ps k p) = types p"
  "gene_sequence (make_entry gs ps k p) = map_of gs k"
  "protein_sequence (make_entry gs ps k p) = map_of ps k"
  "label (make_entry gs ps k p) =
     (case map_of (properties p) ''rdfs:label'' of
        None \<Rightarrow> k | Some [] \<Rightarrow> k | Some (v # _) \<Rightarrow> val v)"
  by (simp_all add: make_entry_def)

lemma fold_targets:
  "fold (\<lambda>v S. if \<not> is_literal v then insert (val v) S else S) vs S
     = S \<union> val ` {v \<in> set vs. \<not> is_literal v}"
  by (induction vs arbitrary: S) auto

lemma scan_role_eq: "scan_role q p S = S \<union> resource_targets q (properties p)"
  by (simp add: scan_role_def resource_targets_def fold_targets split: option.splits)

lemma scan_subject_fields:
  "class_subjects (scan_subject rs (k, p))
     = class_subjects rs \<union> resource_targets ''has_resistance_class'' (properties p)"
  "phenotype_subjects (scan_subject rs (k, p))
     = phenotype_subjects rs \<union> resource_targets ''has_predicted_phenotype'' (properties p)"
  "mechanism_subjects (scan_subject rs (k, p))
     = mechanism_subjects rs \<union> resource_targets ''has_mechanism_of_resistance'' (properties p)"
  "database_subjects (scan_subject rs (k, p))
     = database_subjects rs \<union> resource_targets ''is_from_database'' (properties p)"
  by (simp_all add: scan_subject_def scan_role_eq)

lemma foldl_scan_class:
  "class_subjects (foldl scan_subject rs sp)
     = class_subjects rs \<union>
       (\<Union>(k, p) \<in> set sp. resource_targets ''has_resistance_class'' (properties p))"
proof (induction sp arbitrary: rs)
  case Nil
  then show ?case by simp
next
  case (Cons kp sp)
  obtain k p where "kp = (k, p)" by (cases kp)
  with Cons.IH [of "scan_subject rs (k, p)"] show ?case
    by (simp add: scan_subject_fields Un_assoc)
qed

lemma foldl_scan_phenotype:
  "phenotype_subjects (foldl scan_subject rs sp)
     = phenotype_subjects rs \<union>
       (\<Union>(k, p) \<in> set sp. resource_targets ''has_predicted_phenotype'' (properties p))"
proof (induction sp arbitrary: rs)
  case Nil
  then show ?case by simp
next
  case (Cons kp sp)
  obtain k p where "kp = (k, p)" by (cases kp)
  with Cons.IH [of "scan_subject rs (k, p)"] show ?case
    by (simp add: scan_subject_fields Un_assoc)
qed

lemma foldl_scan_mechanism:
  "mechanism_subjects (foldl scan_subject rs sp)
     = mechanism_subjects rs \<union>
       (\<Union>(k, p) \<in> set sp. resource_targets ''has_mechanism_of_resistance'' (properties p))"
proof (induction sp arbitrary: rs)
  case Nil
  then show ?case by simp
next
  case (Cons kp sp)
  obtain k p where "kp = (k, p)" by (cases kp)
  with Cons.IH [of "scan_subject rs (k, p)"] show ?case
    by (simp add: scan_subject_fields Un_assoc)
qed

lemma foldl_scan_database:
  "database_subjects (foldl scan_subject rs sp)
     = database_subjects rs \<union>
       (\<Union>(k, p) \<in> set sp. resource_targets ''is_from_database'' (properties p))"
proof (induction sp arbitrary: rs)
  case Nil
  then show ?case by simp
next
  case (Cons kp sp)
  obtain k p where "kp = (k, p)" by (cases kp)
  with Cons.IH [of "scan_subject rs (k, p)"] show ?case
    by (simp add: scan_subject_fields Un_assoc)
qed

lemma scan_roles_fields:
  "class_subjects (scan_roles sp)
     = (\<Union>(k, p) \<in> set sp. resource_targets ''has_resistance_class'' (properties p))"
  "phenotype_subjects (scan_roles sp)
     = (\<Union>(k, p) \<in> set sp. resource_targets ''has_predicted_phenotype'' (properties p))"
  "mechanism_subjects (scan_roles sp)
     = (\<Union>(k, p) \<in> set sp. resource_targets ''has_mechanism_of_resistance'' (properties p))"
  "database_subjects (scan_roles sp)
     = (\<Union>(k, p) \<in> set sp. resource_targets ''is_from_database'' (properties p))"
  unfolding scan_roles_def
  by (simp_all add: foldl_scan_class foldl_scan_phenotype foldl_scan_mechanism
        foldl_scan_database)

lemma categorize_fields:
  "PanGene (categorize rs k p c)
     = PanGene c @ (if set (types p) \<inter> pangene_types \<noteq> {} then [k] else [])"
  "OriginalGene (categorize rs k p c)
     = OriginalGene c @ (if ''OriginalGene'' \<in> set (types p) then [k] else [])"
  "AntibioticClass (categorize rs k p c)
     = AntibioticClass c @ (if k \<in> class_subjects rs then [k] else [])"
  "Phenotype (categorize rs k p c)
     = Phenotype c @ (if k \<in> phenotype_subjects rs then [k] else [])"
  "Mechanism (categorize rs k p c)
     = Mechanism c @ (if k \<in> mechanism_subjects rs then [k] else [])"
  "Database (categorize rs k p c)
     = Database c @ (if k \<in> database_subjects rs then [k] else [])"
  by (simp_all add: categorize_def Let_def)

lemma build_subject_fields:
  "categories (build_subject gs ps rs data (k, p)) = categorize rs k p (categories data)"
  "subjects (build_subject gs ps rs data (k, p))
     = AList.update k (make_entry gs ps k p) (subjects data)"
  "metadata (build_subject gs ps rs data (k, p)) = metadata data"
  by (simp_all add: build_subject_def)

lemma foldl_build_field:
  assumes "\<And>c k p. F (categorize rs k p c) = F c @ (if Q k p then [k] else [])"
  shows "F (categories (foldl (build_subject gs ps rs) data sp))
           = F (categories data) @ map fst (filter (\<lambda>(k, p). Q k p) sp)"
proof (induction sp arbitrary: data)
  case Nil
  then show ?case by simp
next
  case (Cons kp sp)
  obtain k p where kp: "kp = (k, p)" by (cases kp)
  have "F (categories (build_subject gs ps rs data (k, p)))
          = F (categories data) @ (if Q k p then [k] else [])"
    by (simp add: build_subject_fields assms)
  with Cons.IH [of "build_subject gs ps rs data (k, p)"] kp show ?case by simp
qed

lemma foldl_build_subjects:
  "distinct (map fst (subjects data) @ map fst sp) \<Longrightarrow>
   subjects (foldl (build_subject gs ps rs) data sp)
     = subjects data @ map (\<lambda>(k, p). (k, make_entry gs ps k p)) sp"
proof (induction sp arbitrary: data)
  case Nil
  then show ?case by simp
next
  case (Cons kp sp)
  obtain k p where kp: "kp = (k, p)" by (cases kp)
  let ?d = "build_subject gs ps rs data (k, p)"
  from Cons.prems kp have "k \<notin> fst ` set (subjects data)" by auto
  then have s: "subjects ?d = subjects data @ [(k, make_entry gs ps k p)]"
    by (simp add: build_subject_fields update_fresh)
  with Cons.prems kp have "distinct (map fst (subjects ?d) @ map fst sp)" by simp
  from Cons.IH [OF this] s kp show ?case by simp
qed

lemma foldl_build_metadata:
  "metadata (foldl (build_subject gs ps rs) data sp) = metadata data"
proof (induction sp arbitrary: data)
  case Nil
  then show ?case by simp
next
  case (Cons kp sp)
  obtain k p where kp: "kp = (k, p)" by (cases kp)
  with Cons.IH [of "build_subject gs ps rs data (k, p)"] show ?case
    by (simp add: build_subject_fields)
qed

lemma convert_char:
  assumes "convert_owl_to_json graph files = Inr doc"
  shows "\<exists>sp gs ps. wf_props sp \<and> collect_triples [] graph = Inr sp \<and>
           snd (parse_fasta files GENES_FASTA) = Inr gs \<and>
           snd (parse_fasta files PROTEINS_FASTA) = Inr ps \<and>
           subjects doc = map (\<lambda>(k, p). (k, make_entry gs ps k p)) sp \<and>
           metadata doc = \<lparr>total_triples = length graph, total_subjects = length sp\<rparr> \<and>
           PanGene (categories doc)
             = map fst (filter (\<lambda>(k, p). set (types p) \<inter> pangene_types \<noteq> {}) sp) \<and>
           OriginalGene (categories doc)
             = map fst (filter (\<lambda>(k, p). ''OriginalGene'' \<in> set (types p)) sp) \<and>
           AntibioticClass (categories doc)
             = map fst (filter (\<lambda>(k, p). k \<in> class_subjects (scan_roles sp)) sp) \<and>
           Phenotype (categories doc)
             = map fst (filter (\<lambda>(k, p). k \<in> phenotype_subjects (scan_roles sp)) sp) \<and>
           Mechanism (categories doc)
             = map fst (filter (\<lambda>(k, p). k \<in> mechanism_subjects (scan_roles sp)) sp) \<and>
           Database (categories doc)
             = map fst (filter (\<lambda>(k, p). k \<in> database_subjects (scan_roles sp)) sp)"
proof -
  obtain sp where sp: "collect_triples [] graph = Inr sp" and wf: "wf_props sp"
    using collect_triples_total [of "[]" graph] wf_props_Nil by blast
  from assms obtain gs where gs: "snd (parse_fasta files GENES_FASTA) = Inr gs"
    by (cases "snd (parse_fasta files GENES_FASTA)") (auto simp: convert_owl_to_json_def)
  from assms gs obtain ps where ps: "snd (parse_fasta files PROTEINS_FASTA) = Inr ps"
    by (cases "snd (parse_fasta files PROTEINS_FASTA)") (auto simp: convert_owl_to_json_def)
  let ?init = "\<lparr>subjects = [],
                  categories = \<lparr>PanGene = [], OriginalGene = [], AntibioticClass = [],
                                Phenotype = [], Mechanism = [], Database = []\<rparr>,
                  metadata = \<lparr>total_triples = length graph, total_subjects = 0\<rparr>\<rparr>"
  let ?rs = "scan_roles sp"
  let ?data = "foldl (build_subject gs ps ?rs) ?init sp"
  from assms gs ps sp
  have doc: "doc = ?data\<lparr>metadata := (metadata ?data)\<lparr>total_subjects := length (subjects ?data)\<rparr>\<rparr>"
    by (simp add: convert_owl_to_json_def Let_def)
  from wf have "distinct (map fst (subjects ?init) @ map fst sp)"
    by (simp add: wf_props_def)
  then have subs: "subjects ?data = map (\<lambda>(k, p). (k, make_entry gs ps k p)) sp"
    by (simp add: foldl_build_subjects)
  have 1: "subjects doc = map (\<lambda>(k, p). (k, make_entry gs ps k p)) sp"
    unfolding doc using subs by simp
  have 2: "metadata doc = \<lparr>total_triples = length graph, total_subjects = length sp\<rparr>"
    unfolding doc using subs by (simp add: foldl_build_metadata)
  have c: "categories doc = categories ?data" unfolding doc by simp
  have 3: "PanGene (categories doc)
             = map fst (filter (\<lambda>(k, p). set (types p) \<inter> pangene_types \<noteq> {}) sp)"
    unfolding c by (subst foldl_build_field [where F = PanGene, OF categorize_fields(1)]) simp
  have 4: "OriginalGene (categories doc)
             = map fst (filter (\<lambda>(k, p). ''OriginalGene'' \<in> set (types p)) sp)"
    unfolding c by (subst foldl_build_field [where F = OriginalGene, OF categorize_fields(2)]) simp
  have 5: "AntibioticClass (categories doc)
             = map fst (filter (\<lambda>(k, p). k \<in> class_subjects (scan_roles sp)) sp)"
    unfolding c by (subst foldl_build_field [where F = AntibioticClass, OF categorize_fields(3)]) simp
  have 6: "Phenotype (categories doc)
             = map fst (filter (\<lambda>(k, p). k \<in> phenotype_subjects (scan_roles sp)) sp)"
    unfolding c by (subst foldl_build_field [where F = Phenotype, OF categorize_fields(4)]) simp
  have 7: "Mechanism (categories doc)
             = map fst (filter (\<lambda>(k, p). k \<in> mechanism_subjects (scan_roles sp)) sp)"
    unfolding c by (subst foldl_build_field [where F = Mechanism, OF categorize_fields(5)]) simp
  have 8: "Database (categories doc)
             = map fst (filter (\<lambda>(k, p). k \<in> database_subjects (scan_roles sp)) sp)"
    unfolding c by (subst foldl_build_field [where F = Database, OF categorize_fields(6)]) simp
  from wf sp gs ps 1 2 3 4 5 6 7 8 show ?thesis by blast
qed

lemma convert_total:
  assumes "snd (parse_fasta files GENES_FASTA) = Inr gs"
    and "snd (parse_fasta files PROTEINS_FASTA) = Inr ps"
  shows "\<exists>doc. convert_owl_to_json graph files = Inr doc"
proof -
  obtain sp where "collect_triples [] graph = Inr sp"
    using collect_triples_total [of "[]" graph] by blast
  with assms show ?thesis by (simp add: convert_owl_to_json_def Let_def)
qed

lemma role_targets_iff:
  "x \<in> role_targets q subs \<longleftrightarrow>
     (\<exists>k e vs v. (k, e) \<in> set subs \<and> map_of (entry_properties e) q = Some vs \<and>
                 v \<in> set vs \<and> \<not> is_literal v \<and> val v = x)"
proof
  assume "x \<in> role_targets q subs"
  then obtain k e where ke: "(k, e) \<in> set subs"
    and x: "x \<in> resource_targets q (entry_properties e)"
    unfolding role_targets_def by auto
  from x obtain vs where vs: "map_of (entry_properties e) q = Some vs"
    and "x \<in> val ` {v \<in> set vs. \<not> is_literal v}"
    unfolding resource_targets_def by (cases "map_of (entry_properties e) q") auto
  then obtain v where "v \<in> set vs" "\<not> is_literal v" "val v = x" by auto
  with ke vs show "\<exists>k e vs v. (k, e) \<in> set subs \<and> map_of (entry_properties e) q = Some vs \<and>
                 v \<in> set vs \<and> \<not> is_literal v \<and> val v = x" by blast
next
  assume "\<exists>k e vs v. (k, e) \<in> set subs \<and> map_of (entry_properties e) q = Some vs \<and>
                 v \<in> set vs \<and> \<not> is_literal v \<and> val v = x"
  then obtain k e vs v where ke: "(k, e) \<in> set subs"
    and vs: "map_of (entry_properties e) q = Some vs"
    and v: "v \<in> set vs" "\<not> is_literal v" "val v = x" by blast
  from vs v have "x \<in> resource_targets q (entry_properties e)"
    unfolding resource_targets_def by auto
  with ke show "x \<in> role_targets q subs" unfolding role_targets_def by blast
qed

lemma role_targets_doc:
  assumes "wf_props sp"
  shows "role_targets q (map (\<lambda>(k, p). (k, make_entry gs ps k p)) sp)
           = (\<Union>(k, p) \<in> set sp. resource_targets q (properties p))"
proof -
  have "\<And>k p. (k, p) \<in> set sp \<Longrightarrow> entry_properties (make_entry gs ps k p) = properties p"
    using assms by (auto simp: wf_props_def intro: make_entry_properties)
  then show ?thesis unfolding role_targets_def by auto
qed

lemma comprehension_entries:
  assumes "\<And>k p. (k, p) \<in> set sp \<Longrightarrow> P k (g k p) = Q k p"
  shows "concat (map (\<lambda>(k, e). if P k e then [k] else []) (map (\<lambda>(k, p). (k, g k p)) sp))
           = map fst (filter (\<lambda>(k, p). Q k p) sp)"
  using assms by (induction sp) auto

lemma role_comprehension:
  assumes "subs = map (\<lambda>(k, p). (k, g k p)) sp"
  shows "concat (map (\<lambda>(k, e). if k \<in> R then [k] else []) subs)
           = map fst (filter (\<lambda>(k, p). k \<in> R) sp)"
  unfolding assms by (rule comprehension_entries) simp

lemma rederive_fields:
  "PanGene (rederive_categories subs)
     = concat (map (\<lambda>(k, e). if set (entry_types e) \<inter> pangene_types \<noteq> {} then [k] else []) subs)"
  "OriginalGene (rederive_categories subs)
     = concat (map (\<lambda>(k, e). if ''OriginalGene'' \<in> set (entry_types e) then [k] else []) subs)"
  "AntibioticClass (rederive_categories subs)
     = concat (map (\<lambda>(k, e). if k \<in> role_targets ''has_resistance_class'' subs then [k] else [])
         subs)"
  "Phenotype (rederive_categories subs)
     = concat (map (\<lambda>(k, e). if k \<in> role_targets ''has_predicted_phenotype'' subs then [k] else [])
         subs)"
  "Mechanism (rederive_categories subs)
     = concat (map (\<lambda>(k, e). if k \<in> role_targets ''has_mechanism_of_resistance'' subs then [k]
                               else []) subs)"
  "Database (rederive_categories subs)
     = concat (map (\<lambda>(k, e). if k \<in> role_targets ''is_from_database'' subs then [k] else [])
         subs)"
  by (simp_all add: rederive_categories_def)

lemma keys_entries: "map fst (map (\<lambda>(k, p). (k, g k p)) sp) = map fst sp"
  by (induction sp) auto

lemma filter_member_distinct:
  assumes "distinct (map fst sp)" "(s, p) \<in> set sp"
  shows "s \<in> set (map fst (filter (\<lambda>(k, p). Q k p) sp)) \<longleftrightarrow> Q s p"
proof
  assume "s \<in> set (map fst (filter (\<lambda>(k, p). Q k p) sp))"
  then obtain p' where p': "(s, p') \<in> set sp" "Q s p'" by auto
  with assms have "p' = p" by (meson eq_key_imp_eq_value)
  with p' show "Q s p" by simp
next
  assume "Q s p"
  with assms(2) show "s \<in> set (map fst (filter (\<lambda>(k, p). Q k p) sp))" by force
qed

lemma example_run: "convert_owl_to_json example_graph Map.empty = Inr example_document"
  by code_simp

lemma build_subject_metadata:
  "build_subject gs ps rs (data\<lparr>metadata := m\<rparr>) item
     = (build_subject gs ps rs data item)\<lparr>metadata := m\<rparr>"
  by (cases item) (simp add: build_subject_def)

lemma foldl_build_metadata_update:
  "foldl (build_subject gs ps rs) (data\<lparr>metadata := m\<rparr>) sp
     = (foldl (build_subject gs ps rs) data sp)\<lparr>metadata := m\<rparr>"
  by (induction sp arbitrary: data) (simp_all add: build_subject_metadata)

lemma parse_fasta_missing:
  "files path = None \<Longrightarrow> parse_fasta files path = ([FastaNotFound path], Inr [])"
  by (simp add: parse_fasta_def)

lemma example_entries:
  "\<exists>e. (''Beta'', e) \<in> set (subjects example_document)"
  "\<exists>e. (''Gene1'', e) \<in> set (subjects example_document)"
  by (simp_all add: example_document_def)

lemma example_beta:
  "(''Beta'', e) \<in> set (subjects example_document) \<Longrightarrow>
   map_of (entry_properties e) ''rdfs:label''
     = Some [\<lparr>val = ''Beta-lactamase'', is_literal = True\<rparr>] \<and> entry_types e = []"
  by (auto simp: example_document_def)

lemma example_gene1:
  "(''Gene1'', e) \<in> set (subjects example_document) \<Longrightarrow>
   map_of (entry_properties e) ''rdfs:label'' = None \<and>
   entry_types e = [''PanGene'', ''AntimicrobialResistanceGene'']"
  by (auto simp: example_document_def)

lemma resource_targets_list:
  "resource_targets q props =
     (case map_of props q of
        None \<Rightarrow> {}
      | Some vs \<Rightarrow> set (map val (filter (\<lambda>v. \<not> is_literal v) vs)))"
  by (auto simp: resource_targets_def split: option.splits)

lemma example_targets:
  "role_targets ''has_resistance_class'' (subjects example_document) = {''Beta'', ''Ghost''}"
  by (simp add: role_targets_def resource_targets_list example_document_def)

lemma example_keys: "fst ` set (subjects example_document) = {''Gene1'', ''Beta''}"
  by (simp add: example_document_def)

section \<open>Properties of the output document\<close>

text \<open>
  Claim C1. For every subject \<open>s\<close> of the output document, with record \<open>e\<close>:
  \<open>s\<close> is in the PanGene list exactly when the type list of \<open>e\<close> contains one of
  PanGene, AntimicrobialResistanceGene, BiocideResistanceGene, MetalResistanceGene; it
  is in the OriginalGene list exactly when the type list contains OriginalGene; and it
  is in the AntibioticClass, Phenotype, Mechanism and Database lists exactly when it is
  a non-literal object value of \<open>has_resistance_class\<close>, \<open>has_predicted_phenotype\<close>,
  \<open>has_mechanism_of_resistance\<close> and \<open>is_from_database\<close> in the properties of some
  subject (\<open>role_targets\<close>, which skips literal values; see \<open>role_targets_iff\<close>). The
  six memberships are independent of one another.
\<close>

theorem category_membership:
  assumes "convert_owl_to_json graph files = Inr doc" and "(s, e) \<in> set (subjects doc)"
  shows "(s \<in> set (PanGene (categories doc)) \<longleftrightarrow> set (entry_types e) \<inter> pangene_types \<noteq> {})
       \<and> (s \<in> set (OriginalGene (categories doc)) \<longleftrightarrow> ''OriginalGene'' \<in> set (entry_types e))
       \<and> (s \<in> set (AntibioticClass (categories doc)) \<longleftrightarrow>
            s \<in> role_targets ''has_resistance_class'' (subjects doc))
       \<and> (s \<in> set (Phenotype (categories doc)) \<longleftrightarrow>
            s \<in> role_targets ''has_predicted_phenotype'' (subjects doc))
       \<and> (s \<in> set (Mechanism (categories doc)) \<longleftrightarrow>
            s \<in> role_targets ''has_mechanism_of_resistance'' (subjects doc))
       \<and> (s \<in> set (Database (categories doc)) \<longleftrightarrow>
            s \<in> role_targets ''is_from_database'' (subjects doc))"
proof -
  from convert_char [OF assms(1)] obtain sp gs ps where
    wf: "wf_props sp" and
    subs: "subjects doc = map (\<lambda>(k, p). (k, make_entry gs ps k p)) sp" and
    c1: "PanGene (categories doc)
           = map fst (filter (\<lambda>(k, p). set (types p) \<inter> pangene_types \<noteq> {}) sp)" and
    c2: "OriginalGene (categories doc)
           = map fst (filter (\<lambda>(k, p). ''OriginalGene'' \<in> set (types p)) sp)" and
    c3: "AntibioticClass (categories doc)
           = map fst (filter (\<lambda>(k, p). k \<in> class_subjects (scan_roles sp)) sp)" and
    c4: "Phenotype (categories doc)
           = map fst (filter (\<lambda>(k, p). k \<in> phenotype_subjects (scan_roles sp)) sp)" and
    c5: "Mechanism (categories doc)
           = map fst (filter (\<lambda>(k, p). k \<in> mechanism_subjects (scan_roles sp)) sp)" and
    c6: "Database (categories doc)
           = map fst (filter (\<lambda>(k, p). k \<in> database_subjects (scan_roles sp)) sp)"
    by blast
  from wf have d: "distinct (map fst sp)" by (simp add: wf_props_def)
  from assms(2) subs obtain p where p: "(s, p) \<in> set sp" and e: "e = make_entry gs ps s p"
    by auto
  have t: "entry_types e = types p" using e by (simp add: make_entry_simps)
  note rt = role_targets_doc [OF wf, of _ gs ps, folded subs]
  have 1: "s \<in> set (PanGene (categories doc)) \<longleftrightarrow> set (entry_types e) \<inter> pangene_types \<noteq> {}"
    unfolding c1 t by (rule filter_member_distinct [OF d p])
  have 2: "s \<in> set (OriginalGene (categories doc)) \<longleftrightarrow> ''OriginalGene'' \<in> set (entry_types e)"
    unfolding c2 t by (rule filter_member_distinct [OF d p])
  have 3: "s \<in> set (AntibioticClass (categories doc)) \<longleftrightarrow>
            s \<in> role_targets ''has_resistance_class'' (subjects doc)"
    unfolding c3 rt scan_roles_fields [symmetric]
    by (rule filter_member_distinct [OF d p])
  have 4: "s \<in> set (Phenotype (categories doc)) \<longleftrightarrow>
            s \<in> role_targets ''has_predicted_phenotype'' (subjects doc)"
    unfolding c4 rt scan_roles_fields [symmetric]
    by (rule filter_member_distinct [OF d p])
  have 5: "s \<in> set (Mechanism (categories doc)) \<longleftrightarrow>
            s \<in> role_targets ''has_mechanism_of_resistance'' (subjects doc)"
    unfolding c5 rt scan_roles_fields [symmetric]
    by (rule filter_member_distinct [OF d p])
  have 6: "s \<in> set (Database (categories doc)) \<longleftrightarrow>
            s \<in> role_targets ''is_from_database'' (subjects doc)"
    unfolding c6 rt scan_roles_fields [symmetric]
    by (rule filter_member_distinct [OF d p])
  from 1 2 3 4 5 6 show ?thesis by blast
qed

theorem category_membership_witness:
  "convert_owl_to_json example_graph Map.empty = Inr example_document
   \<and> ''Beta'' \<in> set (AntibioticClass (categories example_document))
   \<and> ''Beta'' \<notin> set (PanGene (categories example_document))
   \<and> ''Gene1'' \<in> set (PanGene (categories example_document))
   \<and> ''Gene1'' \<notin> set (AntibioticClass (categories example_document))"
proof -
  obtain b where b: "(''Beta'', b) \<in> set (subjects example_document)"
    using example_entries(1) by blast
  obtain g where g: "(''Gene1'', g) \<in> set (subjects example_document)"
    using example_entries(2) by blast
  note B = category_membership [OF example_run b]
  note G = category_membership [OF example_run g]
  have 1: "''Beta'' \<in> set (AntibioticClass (categories example_document))"
    using B example_targets by simp
  have 2: "''Beta'' \<notin> set (PanGene (categories example_document))"
    using B example_beta [OF b] by simp
  have 3: "''Gene1'' \<in> set (PanGene (categories example_document))"
    using G example_gene1 [OF g] by (simp add: pangene_types_def)
  have 4: "''Gene1'' \<notin> set (AntibioticClass (categories example_document))"
    using G example_targets by simp
  from example_run 1 2 3 4 show ?thesis by blast
qed

text \<open>
  Claim C2. Every identifier in any of the six category lists of the output document
  is a key of its subjects mapping. A role target that is never a subject, such as
  \<open>Ghost\<close> in the example graph, is in the candidate set and in no category list.
\<close>

theorem categories_referential:
  assumes "convert_owl_to_json graph files = Inr doc"
  shows "set (PanGene (categories doc)) \<subseteq> fst ` set (subjects doc)
       \<and> set (OriginalGene (categories doc)) \<subseteq> fst ` set (subjects doc)
       \<and> set (AntibioticClass (categories doc)) \<subseteq> fst ` set (subjects doc)
       \<and> set (Phenotype (categories doc)) \<subseteq> fst ` set (subjects doc)
       \<and> set (Mechanism (categories doc)) \<subseteq> fst ` set (subjects doc)
       \<and> set (Database (categories doc)) \<subseteq> fst ` set (subjects doc)"
proof -
  from convert_char [OF assms] obtain sp gs ps where
    subs: "subjects doc = map (\<lambda>(k, p). (k, make_entry gs ps k p)) sp" and
    c1: "PanGene (categories doc)
           = map fst (filter (\<lambda>(k, p). set (types p) \<inter> pangene_types \<noteq> {}) sp)" and
    c2: "OriginalGene (categories doc)
           = map fst (filter (\<lambda>(k, p). ''OriginalGene'' \<in> set (types p)) sp)" and
    c3: "AntibioticClass (categories doc)
           = map fst (filter (\<lambda>(k, p). k \<in> class_subjects (scan_roles sp)) sp)" and
    c4: "Phenotype (categories doc)
           = map fst (filter (\<lambda>(k, p). k \<in> phenotype_subjects (scan_roles sp)) sp)" and
    c5: "Mechanism (categories doc)
           = map fst (filter (\<lambda>(k, p). k \<in> mechanism_subjects (scan_roles sp)) sp)" and
    c6: "Database (categories doc)
           = map fst (filter (\<lambda>(k, p). k \<in> database_subjects (scan_roles sp)) sp)"
    by blast
  have k: "fst ` set (subjects doc) = set (map fst sp)"
    unfolding subs using keys_entries [of "make_entry gs ps" sp] by (metis set_map)
  have f: "\<And>Q. set (map fst (filter Q sp)) \<subseteq> set (map fst sp)" by auto
  show ?thesis unfolding k c1 c2 c3 c4 c5 c6 using f by blast
qed

theorem categories_referential_witness:
  "convert_owl_to_json example_graph Map.empty = Inr example_document
   \<and> set (AntibioticClass (categories example_document)) \<subseteq> {''Gene1'', ''Beta''}
   \<and> ''Ghost'' \<in> role_targets ''has_resistance_class'' (subjects example_document)
   \<and> ''Ghost'' \<notin> set (AntibioticClass (categories example_document))"
proof -
  note R = categories_referential [OF example_run, unfolded example_keys]
  then have 1: "set (AntibioticClass (categories example_document)) \<subseteq> {''Gene1'', ''Beta''}"
    by blast
  have 2: "''Ghost'' \<in> role_targets ''has_resistance_class'' (subjects example_document)"
    by (simp add: example_targets)
  from 1 have 3: "''Ghost'' \<notin> set (AntibioticClass (categories example_document))"
    by auto
  from example_run 1 2 3 show ?thesis by blast
qed



text \<open>
  Claim C6. The document built from a graph is the document built from the graph
  without its triples that have a blank node as subject or as object, with
  \<open>metadata.total_triples\<close> set to the length of the whole graph (the count is taken
  of the input graph before any triple is looked at). So no part of such a triple,
  subject, predicate or object, contributes to the document: the triple adds no
  subject, no property value and no type entry, and the document depends on the
  skipped triples only through how many there are. No blank node appears anywhere in
  the document.
\<close>

theorem blank_triples_skipped:
  "convert_owl_to_json graph files =
     (case convert_owl_to_json
             (filter (\<lambda>t. \<not> blank_subject t \<and> \<not> blank_object t) graph) files of
        Inl e \<Rightarrow> Inl e
      | Inr d \<Rightarrow> Inr (d\<lparr>metadata := (metadata d)\<lparr>total_triples := length graph\<rparr>\<rparr>))"
proof -
  let ?kept = "filter (\<lambda>t. \<not> blank_subject t \<and> \<not> blank_object t) graph"
  let ?c0 = "\<lparr>PanGene = [], OriginalGene = [], AntibioticClass = [],
              Phenotype = [], Mechanism = [], Database = []\<rparr>"
  obtain sp where sp: "collect_triples [] graph = Inr sp"
    using collect_triples_total [of "[]" graph] by blast
  then have sp': "collect_triples [] ?kept = Inr sp"
    by (simp add: collect_triples_filter)
  show ?thesis
  proof (cases "snd (parse_fasta files GENES_FASTA)")
    case (Inl e)
    then show ?thesis by (simp add: convert_owl_to_json_def)
  next
    case gs: (Inr gs)
    show ?thesis
    proof (cases "snd (parse_fasta files PROTEINS_FASTA)")
      case (Inl e)
      with gs show ?thesis by (simp add: convert_owl_to_json_def)
    next
      case ps: (Inr ps)
      let ?init = "\<lambda>n. \<lparr>subjects = [], categories = ?c0,
                          metadata = \<lparr>total_triples = n, total_subjects = 0\<rparr>\<rparr>"
      have i: "?init (length graph)
                 = (?init (length ?kept))\<lparr>metadata :=
                      \<lparr>total_triples = length graph, total_subjects = 0\<rparr>\<rparr>"
        by simp
      show ?thesis
        unfolding convert_owl_to_json_def gs ps sp sp' Let_def sum.case i
          foldl_build_metadata_update
        by simp
    qed
  qed
qed

lemma example_kept_run:
  "convert_owl_to_json
     (filter (\<lambda>t. \<not> blank_subject t \<and> \<not> blank_object t) example_graph) Map.empty
   = Inr (example_document\<lparr>metadata := \<lparr>total_triples = 5, total_subjects = 2\<rparr>\<rparr>)"
  by code_simp

theorem blank_triples_skipped_witness:
  "convert_owl_to_json example_graph Map.empty
     = Inr (example_document\<lparr>metadata := \<lparr>total_triples = length example_graph,
                                            total_subjects = 2\<rparr>\<rparr>)"
  using blank_triples_skipped [of example_graph Map.empty]
  by (simp add: example_kept_run)

lemma role_list_set:
  "set (concat (map (\<lambda>(k, e). if k \<in> R then [k] else []) subs)) = R \<inter> fst ` set subs"
proof (induction subs)
  case Nil
  then show ?case by simp
next
  case (Cons ke subs)
  obtain k e where "ke = (k, e)" by (cases ke)
  with Cons.IH show ?case by (cases "k \<in> R") auto
qed

text \<open>
  Claim C7, as worded. The category sets of section 4.4, re-derived from the document
  by collecting the non-literal object values of a role predicate, are not the
  document's category lists: a role target that is not itself a subject is in the
  re-derived set and in no list. In the example run \<open>Ghost\<close> is an object of
  \<open>has_resistance_class\<close> and never a subject, so the re-derived class set is
  \<open>{Beta, Ghost}\<close> while the AntibioticClass list is \<open>[Beta]\<close>.
\<close>

theorem categories_roundtrip_counterexample:
  "convert_owl_to_json example_graph Map.empty = Inr example_document
   \<and> ''Ghost'' \<in> role_targets ''has_resistance_class'' (subjects example_document)
   \<and> ''Ghost'' \<notin> set (AntibioticClass (categories example_document))
   \<and> role_targets ''has_resistance_class'' (subjects example_document)
       \<noteq> set (AntibioticClass (categories example_document))"
proof -
  have 1: "''Ghost'' \<in> role_targets ''has_resistance_class'' (subjects example_document)"
    unfolding example_targets by simp
  have 2: "''Ghost'' \<notin> set (AntibioticClass (categories example_document))"
    by (simp add: example_document_def)
  have 3: "role_targets ''has_resistance_class'' (subjects example_document)
       \<noteq> set (AntibioticClass (categories example_document))"
  proof
    assume "role_targets ''has_resistance_class'' (subjects example_document)
       = set (AntibioticClass (categories example_document))"
    with 1 have "''Ghost'' \<in> set (AntibioticClass (categories example_document))" by simp
    with 2 show False ..
  qed
  show ?thesis
    by (intro conjI) (rule example_run, rule 1, rule 2, rule 3)
qed

text \<open>
  Claim C7, amended. Re-deriving from the produced document's own subjects the role
  sets of section 4.4 (the non-literal object values of \<open>has_resistance_class\<close>,
  \<open>has_predicted_phenotype\<close>, \<open>has_mechanism_of_resistance\<close>, \<open>is_from_database\<close>
  in their \<open>properties\<close>), keeping of each set the identifiers that are keys of
  \<open>subjects\<close>, in the order of \<open>subjects\<close>, and applying the type rules for PanGene
  and OriginalGene, reproduces exactly the document's category lists. As sets, each
  role category list is the re-derived role set intersected with the subject keys.
\<close>

theorem categories_roundtrip:
  assumes "convert_owl_to_json graph files = Inr doc"
  shows "rederive_categories (subjects doc) = categories doc
       \<and> set (AntibioticClass (categories doc))
           = role_targets ''has_resistance_class'' (subjects doc) \<inter> fst ` set (subjects doc)
       \<and> set (Phenotype (categories doc))
           = role_targets ''has_predicted_phenotype'' (subjects doc) \<inter> fst ` set (subjects doc)
       \<and> set (Mechanism (categories doc))
           = role_targets ''has_mechanism_of_resistance'' (subjects doc)
               \<inter> fst ` set (subjects doc)
       \<and> set (Database (categories doc))
           = role_targets ''is_from_database'' (subjects doc) \<inter> fst ` set (subjects doc)"
proof -
  from convert_char [OF assms] obtain sp gs ps where
    wf: "wf_props sp" and
    subs: "subjects doc = map (\<lambda>(k, p). (k, make_entry gs ps k p)) sp" and
    c1: "PanGene (categories doc)
           = map fst (filter (\<lambda>(k, p). set (types p) \<inter> pangene_types \<noteq> {}) sp)" and
    c2: "OriginalGene (categories doc)
           = map fst (filter (\<lambda>(k, p). ''OriginalGene'' \<in> set (types p)) sp)" and
    c3: "AntibioticClass (categories doc)
           = map fst (filter (\<lambda>(k, p). k \<in> class_subjects (scan_roles sp)) sp)" and
    c4: "Phenotype (categories doc)
           = map fst (filter (\<lambda>(k, p). k \<in> phenotype_subjects (scan_roles sp)) sp)" and
    c5: "Mechanism (categories doc)
           = map fst (filter (\<lambda>(k, p). k \<in> mechanism_subjects (scan_roles sp)) sp)" and
    c6: "Database (categories doc)
           = map fst (filter (\<lambda>(k, p). k \<in> database_subjects (scan_roles sp)) sp)"
    by blast
  note rt = role_targets_doc [OF wf, of _ gs ps, folded subs]
  let ?r = "rederive_categories (subjects doc)"
  have 1: "PanGene ?r = PanGene (categories doc)"
    unfolding c1 rederive_fields subs
    by (rule comprehension_entries) (simp add: make_entry_simps)
  have 2: "OriginalGene ?r = OriginalGene (categories doc)"
    unfolding c2 rederive_fields subs
    by (rule comprehension_entries) (simp add: make_entry_simps)
  have 3: "AntibioticClass ?r = AntibioticClass (categories doc)"
    unfolding c3 scan_roles_fields rt [symmetric] rederive_fields
    by (rule role_comprehension [OF subs])
  have 4: "Phenotype ?r = Phenotype (categories doc)"
    unfolding c4 scan_roles_fields rt [symmetric] rederive_fields
    by (rule role_comprehension [OF subs])
  have 5: "Mechanism ?r = Mechanism (categories doc)"
    unfolding c5 scan_roles_fields rt [symmetric] rederive_fields
    by (rule role_comprehension [OF subs])
  have 6: "Database ?r = Database (categories doc)"
    unfolding c6 scan_roles_fields rt [symmetric] rederive_fields
    by (rule role_comprehension [OF subs])
  from 1 2 3 4 5 6 have r: "?r = categories doc"
    by (intro category_lists.equality) simp_all
  have s3: "set (AntibioticClass (categories doc))
           = role_targets ''has_resistance_class'' (subjects doc) \<inter> fst ` set (subjects doc)"
    unfolding 3 [symmetric] rederive_fields by (rule role_list_set)
  have s4: "set (Phenotype (categories doc))
           = role_targets ''has_predicted_phenotype'' (subjects doc) \<inter> fst ` set (subjects doc)"
    unfolding 4 [symmetric] rederive_fields by (rule role_list_set)
  have s5: "set (Mechanism (categories doc))
           = role_targets ''has_mechanism_of_resistance'' (subjects doc)
               \<inter> fst ` set (subjects doc)"
    unfolding 5 [symmetric] rederive_fields by (rule role_list_set)
  have s6: "set (Database (categories doc))
           = role_targets ''is_from_database'' (subjects doc) \<inter> fst ` set (subjects doc)"
    unfolding 6 [symmetric] rederive_fields by (rule role_list_set)
  show ?thesis
    by (intro conjI) (rule r, rule s3, rule s4, rule s5, rule s6)
qed



theorem categories_roundtrip_witness:
  "convert_owl_to_json example_graph Map.empty = Inr example_document
   \<and> rederive_categories (subjects example_document) = categories example_document
   \<and> set (AntibioticClass (categories example_document))
       = {''Beta'', ''Ghost''} \<inter> {''Gene1'', ''Beta''}"
proof -
  note T = categories_roundtrip [OF example_run]
  have 1: "rederive_categories (subjects example_document) = categories example_document"
    by (rule T [THEN conjunct1])
  have 2: "set (AntibioticClass (categories example_document))
       = {''Beta'', ''Ghost''} \<inter> {''Gene1'', ''Beta''}"
    using T [THEN conjunct2, THEN conjunct1] unfolding example_targets example_keys .
  show ?thesis by (intro conjI) (rule example_run, rule 1, rule 2)
qed

text \<open>
  Claim C8. For a path that names no existing file, \<open>parse_fasta\<close> prints the
  warning and returns the empty mapping, with no exception. The run continues: with
  the gene file missing the conversion returns a document whenever the protein file
  parses, and the other way round, and with both missing it always does. No record of
  the document has a \<open>gene_sequence\<close> field when the gene file is missing, and none
  has a \<open>protein_sequence\<close> field when the protein file is missing.
\<close>

theorem missing_fasta_not_fatal:
  "(files path = None \<longrightarrow> parse_fasta files path = ([FastaNotFound path], Inr []))
   \<and> (files GENES_FASTA = None \<and> snd (parse_fasta files PROTEINS_FASTA) = Inr ps \<longrightarrow>
        (\<exists>doc. convert_owl_to_json graph files = Inr doc))
   \<and> (files PROTEINS_FASTA = None \<and> snd (parse_fasta files GENES_FASTA) = Inr gs \<longrightarrow>
        (\<exists>doc. convert_owl_to_json graph files = Inr doc))
   \<and> (files GENES_FASTA = None \<and> files PROTEINS_FASTA = None \<longrightarrow>
        (\<exists>doc. convert_owl_to_json graph files = Inr doc))
   \<and> (files GENES_FASTA = None \<and> convert_owl_to_json graph files = Inr doc \<longrightarrow>
        (\<forall>(s, e) \<in> set (subjects doc). gene_sequence e = None))
   \<and> (files PROTEINS_FASTA = None \<and> convert_owl_to_json graph files = Inr doc \<longrightarrow>
        (\<forall>(s, e) \<in> set (subjects doc). protein_sequence e = None))"
proof (intro conjI impI)
  assume "files path = None"
  then show "parse_fasta files path = ([FastaNotFound path], Inr [])"
    by (rule parse_fasta_missing)
next
  assume "files GENES_FASTA = None \<and> snd (parse_fasta files PROTEINS_FASTA) = Inr ps"
  then have "snd (parse_fasta files GENES_FASTA) = Inr []"
    and "snd (parse_fasta files PROTEINS_FASTA) = Inr ps"
    by (simp_all add: parse_fasta_missing)
  then show "\<exists>doc. convert_owl_to_json graph files = Inr doc" by (rule convert_total)
next
  assume "files PROTEINS_FASTA = None \<and> snd (parse_fasta files GENES_FASTA) = Inr gs"
  then have "snd (parse_fasta files GENES_FASTA) = Inr gs"
    and "snd (parse_fasta files PROTEINS_FASTA) = Inr []"
    by (simp_all add: parse_fasta_missing)
  then show "\<exists>doc. convert_owl_to_json graph files = Inr doc" by (rule convert_total)
next
  assume "files GENES_FASTA = None \<and> files PROTEINS_FASTA = None"
  then have "snd (parse_fasta files GENES_FASTA) = Inr []"
    and "snd (parse_fasta files PROTEINS_FASTA) = Inr []"
    by (simp_all add: parse_fasta_missing)
  then show "\<exists>doc. convert_owl_to_json graph files = Inr doc" by (rule convert_total)
next
  assume a: "files GENES_FASTA = None \<and> convert_owl_to_json graph files = Inr doc"
  then have g: "snd (parse_fasta files GENES_FASTA) = Inr []"
    by (simp add: parse_fasta_missing)
  from a convert_char [of graph files doc] obtain sp gs' ps' where
    "snd (parse_fasta files GENES_FASTA) = Inr gs'" and
    subs: "subjects doc = map (\<lambda>(k, p). (k, make_entry gs' ps' k p)) sp"
    by blast
  with g have "gs' = []" by simp
  with subs show "\<forall>(s, e) \<in> set (subjects doc). gene_sequence e = None"
    by (auto simp: make_entry_simps)
next
  assume a: "files PROTEINS_FASTA = None \<and> convert_owl_to_json graph files = Inr doc"
  then have g: "snd (parse_fasta files PROTEINS_FASTA) = Inr []"
    by (simp add: parse_fasta_missing)
  from a convert_char [of graph files doc] obtain sp gs' ps' where
    "snd (parse_fasta files PROTEINS_FASTA) = Inr ps'" and
    subs: "subjects doc = map (\<lambda>(k, p). (k, make_entry gs' ps' k p)) sp"
    by blast
  with g have "ps' = []" by simp
  with subs show "\<forall>(s, e) \<in> set (subjects doc). protein_sequence e = None"
    by (auto simp: make_entry_simps)
qed

theorem missing_fasta_not_fatal_witness:
  "parse_fasta Map.empty GENES_FASTA = ([FastaNotFound GENES_FASTA], Inr [])
   \<and> (\<exists>doc. convert_owl_to_json example_graph Map.empty = Inr doc)
   \<and> (\<exists>e. (''Gene1'', e) \<in> set (subjects example_document) \<and>
           gene_sequence e = None \<and> protein_sequence e = None)"
proof -
  have n: "Map.empty GENES_FASTA = (None :: string list option)"
          "Map.empty PROTEINS_FASTA = (None :: string list option)" by simp_all
  note M = missing_fasta_not_fatal [of Map.empty _ _ example_graph _ example_document]
  have 1: "parse_fasta Map.empty GENES_FASTA = ([FastaNotFound GENES_FASTA], Inr [])"
    using missing_fasta_not_fatal [of Map.empty GENES_FASTA] by simp
  have 2: "\<exists>doc. convert_owl_to_json example_graph Map.empty = Inr doc"
    using M n by blast
  obtain g where g: "(''Gene1'', g) \<in> set (subjects example_document)"
    using example_entries(2) by blast
  have "\<forall>(s, e) \<in> set (subjects example_document). gene_sequence e = None"
    using M n example_run by blast
  moreover have "\<forall>(s, e) \<in> set (subjects example_document). protein_sequence e = None"
    using M n example_run by blast
  ultimately have "gene_sequence g = None \<and> protein_sequence g = None" using g by auto
  with 1 2 g show ?thesis by blast
qed

text \<open>
  Claim C10. No category list of the output document holds an identifier twice: the
  keys of the collected subject mapping are distinct and each list is a sublist of
  them.
\<close>

theorem categories_distinct:
  assumes "convert_owl_to_json graph files = Inr doc"
  shows "distinct (PanGene (categories doc)) \<and> distinct (OriginalGene (categories doc))
       \<and> distinct (AntibioticClass (categories doc)) \<and> distinct (Phenotype (categories doc))
       \<and> distinct (Mechanism (categories doc)) \<and> distinct (Database (categories doc))"
proof -
  from convert_char [OF assms] obtain sp gs ps where
    wf: "wf_props sp" and
    c1: "PanGene (categories doc)
           = map fst (filter (\<lambda>(k, p). set (types p) \<inter> pangene_types \<noteq> {}) sp)" and
    c2: "OriginalGene (categories doc)
           = map fst (filter (\<lambda>(k, p). ''OriginalGene'' \<in> set (types p)) sp)" and
    c3: "AntibioticClass (categories doc)
           = map fst (filter (\<lambda>(k, p). k \<in> class_subjects (scan_roles sp)) sp)" and
    c4: "Phenotype (categories doc)
           = map fst (filter (\<lambda>(k, p). k \<in> phenotype_subjects (scan_roles sp)) sp)" and
    c5: "Mechanism (categories doc)
           = map fst (filter (\<lambda>(k, p). k \<in> mechanism_subjects (scan_roles sp)) sp)" and
    c6: "Database (categories doc)
           = map fst (filter (\<lambda>(k, p). k \<in> database_subjects (scan_roles sp)) sp)"
    by blast
  from wf have "distinct (map fst sp)" by (simp add: wf_props_def)
  then have f: "\<And>Q. distinct (map fst (filter Q sp))" by (rule distinct_map_filter)
  show ?thesis unfolding c1 c2 c3 c4 c5 c6 using f by blast
qed

theorem categories_distinct_witness:
  "convert_owl_to_json example_graph Map.empty = Inr example_document
   \<and> distinct (PanGene (categories example_document))
   \<and> distinct (AntibioticClass (categories example_document))"
  using example_run categories_distinct [OF example_run] by blast

end
